theory Spec2Isabelle
  imports Complex_Main "HOL-Library.Word" "HOL-Library.Log_Nat"
begin

section \<open>Machine numbers\<close>

text \<open>
  \<^verbatim>\<open>size_t\<close> is the 64-bit unsigned integer of the LP64 platforms mlpack is built on:
  \<open>+\<close>, \<open>-\<close> and \<open>*\<close> wrap modulo \<open>2 ^ 64\<close>.
\<close>

type_synonym size_t = "64 word"

subsection \<open>IEEE 754 binary64, as far as \<^verbatim>\<open>ConvOutSize\<close> needs it\<close>

text \<open>
  \<^verbatim>\<open>ConvOutSize\<close> calls \<^verbatim>\<open>std::floor\<close> on a \<^verbatim>\<open>size_t\<close>. The overload of
  \<^verbatim>\<open>std::floor\<close> for integer arguments converts its argument to \<^verbatim>\<open>double\<close> and
  returns a \<^verbatim>\<open>double\<close>, so the division and the addition that follow are carried out in
  \<^verbatim>\<open>double\<close>, and the \<^verbatim>\<open>return\<close> converts the result back to \<^verbatim>\<open>size_t\<close>.

  A finite \<^verbatim>\<open>double\<close> is modelled by the rational number it denotes. Every operation
  is evaluated in binary64 and rounds its exact result to the nearest number with a
  53-bit significand, ties to the even significand (the default rounding mode). The
  operands are conversions of \<^verbatim>\<open>size_t\<close> values, so every value that occurs is at most
  \<open>2 ^ 64 + 1\<close> and, unless zero, at least \<open>1 / 2 ^ 64\<close>: far inside the normal range
  of the format, where neither overflow to infinity nor subnormal numbers occur.
\<close>

definition ilog2 :: "rat \<Rightarrow> int" where
  \<comment> \<open>for \<open>0 < q\<close>: the \<open>i\<close> with \<open>2 powi i \<le> q < 2 powi (i + 1)\<close>\<close>
  "ilog2 q = (if 1 \<le> q then bitlen \<lfloor>q\<rfloor> - 1 else - bitlen (\<lceil>1 / q\<rceil> - 1))"

definition round_half_even :: "rat \<Rightarrow> int" where
  "round_half_even x =
     (let f = \<lfloor>x\<rfloor>; d = x - of_int f
      in if d < 1 / 2 then f else if 1 / 2 < d then f + 1 else if even f then f else f + 1)"

definition round_double :: "rat \<Rightarrow> rat" where
  "round_double q =
     (if q = 0 then 0
      else let e = ilog2 \<bar>q\<bar> - 52
           in sgn q * of_int (round_half_even (\<bar>q\<bar> / 2 powi e)) * 2 powi e)"

text \<open>
  What the C++ standard leaves undefined is a failure of the model: a division by zero
  (\<^verbatim>\<open>[expr.mul]\<close>) and a floating-point value converted to an integer type that cannot
  represent its truncation (\<^verbatim>\<open>[conv.fpint]\<close>). \<open>Fatal\<close> is the \<^verbatim>\<open>std::runtime_error\<close>
  that mlpack's \<^verbatim>\<open>Log::Fatal\<close> stream throws when a newline (\<^verbatim>\<open>std::endl\<close>) is sent to it.
\<close>

datatype failure = Fatal | DivisionByZero | ConversionOutOfRange

definition to_double :: "size_t \<Rightarrow> rat" where
  "to_double n = round_double (of_nat (unat n))"

definition floor_double :: "rat \<Rightarrow> rat" where
  "floor_double x = of_int \<lfloor>x\<rfloor>"

definition truncate_double :: "rat \<Rightarrow> int" where
  "truncate_double x = (if 0 \<le> x then \<lfloor>x\<rfloor> else \<lceil>x\<rceil>)"

definition to_size_t :: "rat \<Rightarrow> failure + size_t" where
  "to_size_t x =
     (let t = truncate_double x
      in if 0 \<le> t \<and> t < 2 ^ 64 then Inr (word_of_int t) else Inl ConversionOutOfRange)"

section \<open>Spatial dimensions\<close>

text \<open>
  \<^verbatim>\<open>return std::floor(size + 2 * padding - k) / s + 1;\<close>
  The argument of \<^verbatim>\<open>std::floor\<close> is computed in \<^verbatim>\<open>size_t\<close>; the rest in \<^verbatim>\<open>double\<close>.
\<close>

definition ConvOutSize :: "size_t \<Rightarrow> size_t \<Rightarrow> size_t \<Rightarrow> size_t \<Rightarrow> failure + size_t" where
  "ConvOutSize size' k s padding =
     (let x = floor_double (to_double (size' + 2 * padding - k));
          d = to_double s
      in if d = 0 then Inl DivisionByZero
         else to_size_t (round_double (round_double (x / d) + 1)))"

text \<open>
  The formula of the specification, over the integers (\<open>div\<close> on \<open>int\<close> rounds towards
  minus infinity, as \<open>floor\<close> of the quotient does).
\<close>

definition ConvOutSize_spec :: "int \<Rightarrow> int \<Rightarrow> int \<Rightarrow> int \<Rightarrow> int" where
  "ConvOutSize_spec size' k stride padding = (size' + 2 * padding - k) div stride + 1"

section \<open>The layer graph\<close>

text \<open>
  The mlpack layers the two files create, with their constructor arguments in the order
  of the source. \<open>Convolution\<close> takes the input and output channel counts, the kernel
  width and height, the stride width and height, the padding width and height and the
  input width and height. \<open>Sequential\<close> and \<open>AddMerge\<close> are the two containers; a container
  owns the layers added to it, in the order of the \<^verbatim>\<open>Add\<close> calls.
  \<open>AdaptiveMeanPooling\<close> and \<open>Linear\<close> are named only by the lines of the constructor that
  are commented out.
\<close>

datatype layer =
    Convolution size_t size_t size_t size_t size_t size_t size_t size_t size_t size_t
  | BatchNorm size_t
  | ReLULayer
  | Padding size_t size_t size_t size_t
  | MaxPooling size_t size_t size_t size_t
  | IdentityLayer
  | AdaptiveMeanPooling size_t size_t
  | Linear size_t size_t
  | Sequential "layer list"
  | AddMerge bool bool "layer list"

text \<open>
  The data members of \<^verbatim>\<open>class ResNet\<close>. The member \<^verbatim>\<open>resNet\<close>, an \<^verbatim>\<open>ann::FFN\<close>, is
  modelled by the list of the layers added to it. What the constructor prints to
  \<^verbatim>\<open>std::cout\<close> is left out.
\<close>

record resnet_state =
  resNet :: "layer list"
  inputChannel :: size_t
  inputWidth :: size_t
  inputHeight :: size_t
  numClasses :: size_t

definition basicBlockExpansion :: size_t where
  "basicBlockExpansion = 1"

definition bottleNeckExpansion :: size_t where
  "bottleNeckExpansion = 4"

text \<open>
  A member function either returns, or fails; a failure carries the state of the object
  at the point of failure.
\<close>

definition and_then :: "'e + 'a \<Rightarrow> ('a \<Rightarrow> 'e + 'b) \<Rightarrow> 'e + 'b" where
  "and_then r f = (case r of Inl e \<Rightarrow> Inl e | Inr a \<Rightarrow> f a)"

definition assign_inputWidth ::
  "failure + size_t \<Rightarrow> resnet_state \<Rightarrow> failure \<times> resnet_state + resnet_state" where
  "assign_inputWidth r this =
     (case r of Inl f \<Rightarrow> Inl (f, this) | Inr v \<Rightarrow> Inr (this\<lparr>inputWidth := v\<rparr>))"

definition assign_inputHeight ::
  "failure + size_t \<Rightarrow> resnet_state \<Rightarrow> failure \<times> resnet_state + resnet_state" where
  "assign_inputHeight r this =
     (case r of Inl f \<Rightarrow> Inl (f, this) | Inr v \<Rightarrow> Inr (this\<lparr>inputHeight := v\<rparr>))"

definition add_layer :: "layer \<Rightarrow> resnet_state \<Rightarrow> resnet_state" where
  \<comment> \<open>\<^verbatim>\<open>resNet.Add(...)\<close>\<close>
  "add_layer l this = this\<lparr>resNet := resNet this @ [l]\<rparr>"

section \<open>Building blocks (\<^verbatim>\<open>resnet.hpp\<close>)\<close>

text \<open>
  The container a builder adds to is passed as the list of its layers and returned
  extended. The header assigns the new width to \<^verbatim>\<open>inputwidth\<close>, a name that is not
  declared; the model reads it as the member \<^verbatim>\<open>inputWidth\<close>, which the comment above the
  assignment (``updating input dimensions'') names as the intent.
\<close>

definition ConvolutionBlock3x3 ::
  "layer list \<Rightarrow> size_t \<Rightarrow> size_t \<Rightarrow> size_t \<Rightarrow> size_t \<Rightarrow> size_t \<Rightarrow> size_t \<Rightarrow> size_t \<Rightarrow> size_t \<Rightarrow>
   resnet_state \<Rightarrow> failure \<times> resnet_state + layer list \<times> resnet_state" where
  "ConvolutionBlock3x3 baseLayer inSize outSize kernelWidth kernelHeight strideWidth
       strideHeight padW padH this =
     (let baseLayer = baseLayer @ [Convolution inSize outSize kernelWidth kernelHeight
            strideWidth strideHeight padW padH (inputWidth this) (inputHeight this)]
      in and_then (assign_inputWidth
             (ConvOutSize (inputWidth this) kernelWidth strideWidth padW) this) (\<lambda>this.
         and_then (assign_inputHeight
             (ConvOutSize (inputHeight this) kernelHeight strideHeight padH) this) (\<lambda>this.
         Inr (baseLayer, this))))"

definition ConvolutionBlock1x1 ::
  "layer list \<Rightarrow> size_t \<Rightarrow> size_t \<Rightarrow> size_t \<Rightarrow> size_t \<Rightarrow> size_t \<Rightarrow> size_t \<Rightarrow> size_t \<Rightarrow> size_t \<Rightarrow>
   resnet_state \<Rightarrow> failure \<times> resnet_state + layer list \<times> resnet_state" where
  "ConvolutionBlock1x1 baseLayer inSize outSize kernelWidth kernelHeight strideWidth
       strideHeight padW padH this =
     (let baseLayer = baseLayer @ [Convolution inSize outSize kernelWidth kernelHeight
            strideWidth strideHeight padW padH (inputWidth this) (inputHeight this)]
      in and_then (assign_inputWidth
             (ConvOutSize (inputWidth this) kernelWidth strideWidth padW) this) (\<lambda>this.
         and_then (assign_inputHeight
             (ConvOutSize (inputHeight this) kernelHeight strideHeight padH) this) (\<lambda>this.
         Inr (baseLayer, this))))"

text \<open>
  \<^verbatim>\<open>DownSample\<close> passes \<^verbatim>\<open>inputWidth\<close> and \<^verbatim>\<open>inputHeight\<close> as two further arguments to
  \<^verbatim>\<open>ConvolutionBlock1x1\<close>, which has no such parameters and reads the two members
  itself; the model drops the two arguments.
\<close>

definition DownSample ::
  "layer list \<Rightarrow> size_t \<Rightarrow> size_t \<Rightarrow> size_t \<Rightarrow> size_t \<Rightarrow> size_t \<Rightarrow> size_t \<Rightarrow> size_t \<Rightarrow> size_t \<Rightarrow>
   resnet_state \<Rightarrow> failure \<times> resnet_state + layer list \<times> resnet_state" where
  "DownSample downSample inSize outSize kernelWidth kernelHeight strideWidth strideHeight
       padW padH this =
     and_then (ConvolutionBlock1x1 downSample inSize outSize kernelWidth kernelHeight
         strideWidth strideHeight padW padH this) (\<lambda>(downSample, this).
     Inr (downSample @ [BatchNorm outSize], this))"

text \<open>
  \<^verbatim>\<open>BasicBlock(inSize, outSize, downSample = false, kernelWidth = 1, kernelHeight = 1)\<close>.
  The first convolution gets the block's kernel size and the defaults of
  \<^verbatim>\<open>ConvolutionBlock3x3\<close> for stride (1) and padding (1); the second gets all defaults.
  The name \<^verbatim>\<open>seqentialBlock\<close> of the body is read as the local \<^verbatim>\<open>sequentialBlock\<close>.
\<close>

definition BasicBlock ::
  "size_t \<Rightarrow> size_t \<Rightarrow> bool \<Rightarrow> size_t \<Rightarrow> size_t \<Rightarrow> resnet_state \<Rightarrow>
   failure \<times> resnet_state + resnet_state" where
  "BasicBlock inSize outSize downSample kernelWidth kernelHeight this =
     and_then (ConvolutionBlock3x3 [] inSize outSize kernelWidth kernelHeight 1 1 1 1 this)
       (\<lambda>(sequentialBlock, this).
     let sequentialBlock = sequentialBlock @ [BatchNorm outSize];
         sequentialBlock = sequentialBlock @ [ReLULayer]
     in and_then (ConvolutionBlock3x3 sequentialBlock outSize outSize 3 3 1 1 1 1 this)
       (\<lambda>(sequentialBlock, this).
     let sequentialBlock = sequentialBlock @ [BatchNorm outSize];
         resBlock = [Sequential sequentialBlock]
     in and_then (if downSample = True
                  then DownSample resBlock inSize outSize 1 1 1 1 0 0 this
                  else Inr (resBlock @ [IdentityLayer], this))
       (\<lambda>(resBlock, this).
     let basicBlock = [AddMerge True True resBlock];
         basicBlock = basicBlock @ [ReLULayer]
     in Inr (add_layer (Sequential basicBlock) this))))"

text \<open>
  \<^verbatim>\<open>void BottleNeck() { }\<close> has an empty body. \<^verbatim>\<open>MakeLayer\<close> calls
  \<^verbatim>\<open>bottleneck(inSize, outSize, downSample)\<close>, as it calls \<^verbatim>\<open>basicBlock\<close> for
  \<^verbatim>\<open>BasicBlock\<close>; the class has no other member of that name, so the call is read as a
  call of \<^verbatim>\<open>BottleNeck\<close>, which uses none of the arguments.
\<close>

definition BottleNeck ::
  "size_t \<Rightarrow> size_t \<Rightarrow> bool \<Rightarrow> resnet_state \<Rightarrow> failure \<times> resnet_state + resnet_state" where
  "BottleNeck inSize outSize downSample this = Inr this"

text \<open>
  \<^verbatim>\<open>for (size_t i = 1; i != numBlocks; ++i) body\<close>: the counter is a \<^verbatim>\<open>size_t\<close> and the
  test is an inequality, so for \<^verbatim>\<open>numBlocks = 0\<close> the counter runs through all other
  values before the loop ends.
\<close>

function for_blocks ::
  "size_t \<Rightarrow> size_t \<Rightarrow> (resnet_state \<Rightarrow> failure \<times> resnet_state + resnet_state) \<Rightarrow>
   resnet_state \<Rightarrow> failure \<times> resnet_state + resnet_state" where
  "for_blocks i numBlocks body this =
     (if i \<noteq> numBlocks
      then (case body this of Inl e \<Rightarrow> Inl e | Inr this \<Rightarrow> for_blocks (i + 1) numBlocks body this)
      else Inr this)"
  by pat_completeness auto
termination
proof (relation "measure (\<lambda>(i, numBlocks, body, this). unat (numBlocks - i))")
  show "wf (measure (\<lambda>(i, numBlocks, body, this). unat (numBlocks - i)))"
    by simp
next
  fix i numBlocks :: size_t
    and body :: "resnet_state \<Rightarrow> failure \<times> resnet_state + resnet_state"
    and this x
  assume "i \<noteq> numBlocks"
  then have "numBlocks - i \<noteq> 0" by simp
  then have "unat (numBlocks - i - 1) < unat (numBlocks - i)"
    by (simp add: unat_minus_one unat_gt_0)
  moreover have "numBlocks - (i + 1) = numBlocks - i - 1" by simp
  ultimately have "unat (numBlocks - (i + 1)) < unat (numBlocks - i)" by (simp only:)
  then show "((i + 1, numBlocks, body, x), (i, numBlocks, body, this))
      \<in> measure (\<lambda>(i, numBlocks, body, this). unat (numBlocks - i))"
    by simp
qed

definition MakeLayer ::
  "string \<Rightarrow> size_t \<Rightarrow> size_t \<Rightarrow> size_t \<Rightarrow> resnet_state \<Rightarrow>
   failure \<times> resnet_state + resnet_state" where
  "MakeLayer block outSize numBlocks stride this =
     (let inSize = 64; downSample = False
      in if block = ''basicblock''
         then
           let downSample =
                 (if stride \<noteq> 1 \<or> inSize \<noteq> inSize * basicBlockExpansion
                  then True else downSample)
           in and_then (BasicBlock inSize outSize downSample 1 1 this) (\<lambda>this.
              let inSize = inSize * basicBlockExpansion
              in for_blocks 1 numBlocks (BasicBlock inSize outSize False 1 1) this)
         else if block = ''bottleneck''
         then
           let downSample =
                 (if stride \<noteq> 1 \<or> inSize \<noteq> inSize * bottleNeckExpansion
                  then True else downSample)
           in and_then (BottleNeck inSize outSize downSample this) (\<lambda>this.
              let inSize = inSize * bottleNeckExpansion
              in for_blocks 1 numBlocks (BottleNeck inSize outSize False) this)
         else Inr this)"

section \<open>The constructor (\<^verbatim>\<open>resnet_impl.hpp\<close>)\<close>

text \<open>
  Lines 65 to 94: the chain of comparisons on \<^verbatim>\<open>ResNetVersion\<close> that sets
  \<^verbatim>\<open>numBlockArray\<close> and \<^verbatim>\<open>builderBlock\<close>. In the last branch the message and \<^verbatim>\<open>std::endl\<close>
  are sent to \<^verbatim>\<open>mlpack::Log::Fatal\<close>. That stream belongs to mlpack, not to these two
  files; mlpack documents it as the stream that prints the message and terminates: once a
  newline has been written to it, it throws \<^verbatim>\<open>std::runtime_error\<close>. The exception leaves
  the constructor at this point.
\<close>

definition ResNet_config :: "size_t \<Rightarrow> failure + size_t list \<times> string" where
  "ResNet_config ResNetVersion =
     (if ResNetVersion = 18 then Inr ([2, 2, 2, 2], ''basicblock'')
      else if ResNetVersion = 34 then Inr ([3, 4, 6, 3], ''basicblock'')
      else if ResNetVersion = 50 then Inr ([3, 4, 6, 3], ''bottleneck'')
      else if ResNetVersion = 101 then Inr ([3, 4, 23, 3], ''bottleneck'')
      else if ResNetVersion = 152 then Inr ([3, 8, 36, 3], ''bottleneck'')
      else Inl Fatal)"

text \<open>Lines 96 to 126: the stem.\<close>

definition ResNet_stem :: "resnet_state \<Rightarrow> failure \<times> resnet_state + resnet_state" where
  "ResNet_stem this =
     (let this = add_layer (Convolution 3 64 7 7 2 2 3 3 (inputWidth this) (inputHeight this)) this
      in and_then (assign_inputWidth (ConvOutSize (inputWidth this) 7 2 3) this) (\<lambda>this.
         and_then (assign_inputHeight (ConvOutSize (inputHeight this) 7 2 3) this) (\<lambda>this.
         let this = add_layer (BatchNorm 64) this;
             this = add_layer ReLULayer this;
             this = add_layer (Padding 1 1 1 1) this;
             this = this\<lparr>inputWidth := inputWidth this + 2\<rparr>;
             this = this\<lparr>inputHeight := inputHeight this + 2\<rparr>;
             this = add_layer (MaxPooling 3 3 2 2) this
         in and_then (assign_inputWidth (ConvOutSize (inputWidth this) 3 2 0) this) (\<lambda>this.
            assign_inputHeight (ConvOutSize (inputHeight this) 3 2 0) this))))"

text \<open>
  Lines 128 to 132: what the constructor adds after the stem. The four calls of
  \<^verbatim>\<open>MakeLayer\<close> (lines 134 to 137) and the classification head under
  \<^verbatim>\<open>if (includeTop)\<close> (lines 139 to 158) are commented out.
\<close>

definition ResNet_rest :: "resnet_state \<Rightarrow> resnet_state" where
  "ResNet_rest this =
     (let sequentialBlock = [];
          sequentialBlock = sequentialBlock @
            [Convolution 64 64 3 3 1 1 1 1 (inputWidth this) (inputHeight this)];
          sequentialBlock = sequentialBlock @
            [Convolution 64 64 3 3 1 1 1 1 (inputWidth this) (inputHeight this)];
          this = add_layer (Sequential sequentialBlock) this
      in add_layer IdentityLayer this)"

text \<open>
  The constructor taking the input shape as a tuple; \<^verbatim>\<open>ResNetVersion\<close> is the template
  parameter. The member initialisers come first. \<^verbatim>\<open>numBlockArray\<close> and \<^verbatim>\<open>builderBlock\<close>
  are not used by the lines that follow.
\<close>

definition ResNet ::
  "size_t \<Rightarrow> size_t \<times> size_t \<times> size_t \<Rightarrow> bool \<Rightarrow> bool \<Rightarrow> size_t \<Rightarrow>
   failure \<times> resnet_state + resnet_state" where
  "ResNet ResNetVersion inputShape includeTop preTrained numClasses' =
     (let this = \<lparr>resNet = [], inputChannel = fst inputShape,
                  inputWidth = fst (snd inputShape), inputHeight = snd (snd inputShape),
                  numClasses = numClasses'\<rparr>
      in case ResNet_config ResNetVersion of
           Inl f \<Rightarrow> Inl (f, this)
         | Inr (numBlockArray, builderBlock) \<Rightarrow>
             and_then (ResNet_stem this) (\<lambda>this. Inr (ResNet_rest this)))"

section \<open>The constructor on the free store\<close>

text \<open>
  The constructor creates every layer with \<^verbatim>\<open>new\<close> and hands the pointer to
  \<^verbatim>\<open>resNet.Add\<close> or to the \<^verbatim>\<open>Add\<close> of a container, so the graph it builds lives on the
  free store and is held together by addresses. This section models the constructor once
  more at that level. An object on the store is a layer that is not a container, or a
  container with the addresses of its children in the order they were added.
\<close>

type_synonym addr = nat

datatype object =
    Leaf layer
  | SequentialObject "addr list"
  | AddMergeObject bool bool "addr list"

text \<open>
  The object under construction, together with the free store: \<open>network\<close> is the vector
  of layer pointers that \<^verbatim>\<open>resNet\<close> holds, \<open>allocations\<close> counts the calls of
  \<^verbatim>\<open>operator new\<close> so far, and the four primed fields are the members
  \<^verbatim>\<open>inputChannel\<close>, \<^verbatim>\<open>inputWidth\<close>, \<^verbatim>\<open>inputHeight\<close> and \<^verbatim>\<open>numClasses\<close>.
\<close>

record resnet_object =
  store :: "addr \<rightharpoonup> object"
  allocations :: nat
  network :: "addr list"
  inputChannel' :: size_t
  inputWidth' :: size_t
  inputHeight' :: size_t
  numClasses' :: size_t

text \<open>
  Which address \<^verbatim>\<open>new\<close> returns is not fixed by the program. A run is given the
  addresses it will obtain as \<open>supply\<close>: the \<open>i\<close>-th call of \<^verbatim>\<open>new\<close> returns
  \<open>supply i\<close>. The constructor frees nothing, so in a real run these addresses are
  pairwise different, that is, \<open>supply\<close> is injective; the definitions do not assume
  it. That \<^verbatim>\<open>new\<close> may throw \<^verbatim>\<open>std::bad_alloc\<close> is left out.
\<close>

definition operator_new :: "(nat \<Rightarrow> addr) \<Rightarrow> object \<Rightarrow> resnet_object \<Rightarrow> addr \<times> resnet_object" where
  "operator_new supply obj this =
     (let a = supply (allocations this)
      in (a, this\<lparr>store := (store this)(a \<mapsto> obj), allocations := Suc (allocations this)\<rparr>))"

definition network_Add :: "addr \<Rightarrow> resnet_object \<Rightarrow> resnet_object" where
  "network_Add a this = this\<lparr>network := network this @ [a]\<rparr>"

text \<open>
  \<^verbatim>\<open>container->Add(child)\<close>. Only pointers to containers are used this way; at any other
  address the store is left as it is.
\<close>

definition container_Add :: "addr \<Rightarrow> addr \<Rightarrow> resnet_object \<Rightarrow> resnet_object" where
  "container_Add container child this =
     (case store this container of
        Some (SequentialObject children) \<Rightarrow>
          this\<lparr>store := (store this)(container \<mapsto> SequentialObject (children @ [child]))\<rparr>
      | Some (AddMergeObject x y children) \<Rightarrow>
          this\<lparr>store := (store this)(container \<mapsto> AddMergeObject x y (children @ [child]))\<rparr>
      | _ \<Rightarrow> this)"

definition assign_inputWidth' ::
  "failure + size_t \<Rightarrow> resnet_object \<Rightarrow> failure \<times> resnet_object + resnet_object" where
  "assign_inputWidth' r this =
     (case r of Inl f \<Rightarrow> Inl (f, this) | Inr v \<Rightarrow> Inr (this\<lparr>inputWidth' := v\<rparr>))"

definition assign_inputHeight' ::
  "failure + size_t \<Rightarrow> resnet_object \<Rightarrow> failure \<times> resnet_object + resnet_object" where
  "assign_inputHeight' r this =
     (case r of Inl f \<Rightarrow> Inl (f, this) | Inr v \<Rightarrow> Inr (this\<lparr>inputHeight' := v\<rparr>))"

text \<open>
  Lines 96 to 126, lines 128 to 132 and the whole constructor, as \<open>ResNet_stem\<close>,
  \<open>ResNet_rest\<close> and \<open>ResNet\<close> above, with \<^verbatim>\<open>resNet.Add(new ...)\<close> as an allocation
  followed by the addition of the pointer.
\<close>

definition ResNet_stem_new ::
  "(nat \<Rightarrow> addr) \<Rightarrow> resnet_object \<Rightarrow> failure \<times> resnet_object + resnet_object" where
  "ResNet_stem_new supply this =
     (let (a, this) = operator_new supply
            (Leaf (Convolution 3 64 7 7 2 2 3 3 (inputWidth' this) (inputHeight' this))) this;
          this = network_Add a this
      in and_then (assign_inputWidth' (ConvOutSize (inputWidth' this) 7 2 3) this) (\<lambda>this.
         and_then (assign_inputHeight' (ConvOutSize (inputHeight' this) 7 2 3) this) (\<lambda>this.
         let (a, this) = operator_new supply (Leaf (BatchNorm 64)) this;
             this = network_Add a this;
             (a, this) = operator_new supply (Leaf ReLULayer) this;
             this = network_Add a this;
             (a, this) = operator_new supply (Leaf (Padding 1 1 1 1)) this;
             this = network_Add a this;
             this = this\<lparr>inputWidth' := inputWidth' this + 2\<rparr>;
             this = this\<lparr>inputHeight' := inputHeight' this + 2\<rparr>;
             (a, this) = operator_new supply (Leaf (MaxPooling 3 3 2 2)) this;
             this = network_Add a this
         in and_then (assign_inputWidth' (ConvOutSize (inputWidth' this) 3 2 0) this) (\<lambda>this.
            assign_inputHeight' (ConvOutSize (inputHeight' this) 3 2 0) this))))"

definition ResNet_rest_new :: "(nat \<Rightarrow> addr) \<Rightarrow> resnet_object \<Rightarrow> resnet_object" where
  "ResNet_rest_new supply this =
     (let (sequentialBlock, this) = operator_new supply (SequentialObject []) this;
          (a, this) = operator_new supply
            (Leaf (Convolution 64 64 3 3 1 1 1 1 (inputWidth' this) (inputHeight' this))) this;
          this = container_Add sequentialBlock a this;
          (a, this) = operator_new supply
            (Leaf (Convolution 64 64 3 3 1 1 1 1 (inputWidth' this) (inputHeight' this))) this;
          this = container_Add sequentialBlock a this;
          this = network_Add sequentialBlock this;
          (a, this) = operator_new supply (Leaf IdentityLayer) this
      in network_Add a this)"

definition ResNet_new ::
  "(nat \<Rightarrow> addr) \<Rightarrow> size_t \<Rightarrow> size_t \<times> size_t \<times> size_t \<Rightarrow> bool \<Rightarrow> bool \<Rightarrow> size_t \<Rightarrow>
   failure \<times> resnet_object + resnet_object" where
  "ResNet_new supply ResNetVersion inputShape includeTop preTrained numClasses'' =
     (let this = \<lparr>store = Map.empty, allocations = 0, network = [],
                  inputChannel' = fst inputShape, inputWidth' = fst (snd inputShape),
                  inputHeight' = snd (snd inputShape), numClasses' = numClasses''\<rparr>
      in case ResNet_config ResNetVersion of
           Inl f \<Rightarrow> Inl (f, this)
         | Inr (numBlockArray, builderBlock) \<Rightarrow>
             and_then (ResNet_stem_new supply this) (\<lambda>this. Inr (ResNet_rest_new supply this)))"

text \<open>
  The graph as a tree, read from the store through the pointers. \<open>depth\<close> bounds the
  nesting that is followed; \<open>None\<close> means a pointer to nothing or a nesting deeper than
  \<open>depth\<close>.
\<close>

fun layer_at :: "nat \<Rightarrow> (addr \<rightharpoonup> object) \<Rightarrow> addr \<Rightarrow> layer option" where
  "layer_at 0 st a = None"
| "layer_at (Suc depth) st a =
     (case st a of
        None \<Rightarrow> None
      | Some (Leaf l) \<Rightarrow> Some l
      | Some (SequentialObject children) \<Rightarrow>
          map_option Sequential (those (map (layer_at depth st) children))
      | Some (AddMergeObject x y children) \<Rightarrow>
          map_option (AddMerge x y) (those (map (layer_at depth st) children)))"

definition graph :: "nat \<Rightarrow> resnet_object \<Rightarrow> layer list option" where
  "graph depth this = those (map (layer_at depth (store this)) (network this))"

text \<open>
  What a caller can tell of the graph after a run: the tree of the layers and, when the
  run failed, the failure. \<open>layers_of_run\<close> is the same for a run of \<open>ResNet\<close>, whose
  state holds the tree itself.
\<close>

definition graph_of_run ::
  "nat \<Rightarrow> failure \<times> resnet_object + resnet_object \<Rightarrow>
   failure \<times> layer list option + layer list option" where
  "graph_of_run depth r = map_sum (\<lambda>(f, this). (f, graph depth this)) (graph depth) r"

definition layers_of_run ::
  "failure \<times> resnet_state + resnet_state \<Rightarrow> failure \<times> layer list option + layer list option" where
  "layers_of_run r = map_sum (\<lambda>(f, this). (f, Some (resNet this))) (\<lambda>this. Some (resNet this)) r"

declare for_blocks.simps [simp del]

section \<open>Rounding to \<^verbatim>\<open>double\<close>: exact values and monotonicity\<close>

subsection \<open>The binary exponent\<close>

lemma powi_pos: "0 < (2::rat) powi i"
  by (simp add: power_int_def)

lemma powi_mono: "i \<le> j \<Longrightarrow> (2::rat) powi i \<le> 2 powi j"
  by (rule power_int_increasing) simp_all

lemma powi_strict_mono: "i < j \<Longrightarrow> (2::rat) powi i < 2 powi j"
  by (rule power_int_strict_increasing) simp_all

lemma powi_nat: "0 \<le> i \<Longrightarrow> (2::rat) powi i = of_int (2 ^ nat i)"
  by (simp add: power_int_def)

lemma ilog2_bounds:
  assumes "0 < q"
  shows "2 powi (ilog2 q) \<le> q" and "q < 2 powi (ilog2 q + 1)"
proof -
  have "2 powi (ilog2 q) \<le> q \<and> q < 2 powi (ilog2 q + 1)"
  proof (cases "1 \<le> q")
    case True
    define n where "n = \<lfloor>q\<rfloor>"
    have n1: "1 \<le> n" using True by (simp add: n_def le_floor_iff)
    then have n0: "0 < n" by simp
    have b1: "1 \<le> bitlen n" using n0 bitlen_eq_zero_iff [of n] bitlen_nonneg [of n] by linarith
    have i: "ilog2 q = bitlen n - 1" using True by (simp add: ilog2_def n_def)
    from bitlen_bounds [OF n0] have lo: "2 ^ nat (bitlen n - 1) \<le> n" and hi: "n < 2 ^ nat (bitlen n)"
      by simp_all
    have "(2::rat) powi (bitlen n - 1) = of_int (2 ^ nat (bitlen n - 1))"
      using b1 by (intro powi_nat) simp
    also have "\<dots> \<le> of_int n" using lo by (simp only: of_int_le_iff)
    also have "\<dots> \<le> q" by (simp add: n_def)
    finally have A: "2 powi (ilog2 q) \<le> q" by (simp add: i)
    have "q < of_int (n + 1)" unfolding n_def by linarith
    also have "\<dots> \<le> of_int (2 ^ nat (bitlen n))" using hi by (simp only: of_int_le_iff)
    also have "\<dots> = (2::rat) powi (bitlen n)" using b1 by (subst powi_nat) simp_all
    finally have B: "q < 2 powi (ilog2 q + 1)" by (simp add: i)
    from A B show ?thesis ..
  next
    case False
    define r where "r = 1 / q"
    define m where "m = \<lceil>r\<rceil> - 1"
    have r1: "1 < r" using False assms by (simp add: r_def)
    have q: "q = 1 / r" by (simp add: r_def)
    have "2 \<le> \<lceil>r\<rceil>" using r1 by (simp add: le_ceiling_iff) 
    then have m0: "0 < m" by (simp add: m_def)
    have mr: "of_int m < r" unfolding m_def by linarith
    have rm: "r \<le> of_int (m + 1)" unfolding m_def by (simp add: le_of_int_ceiling) 
    have b1: "1 \<le> bitlen m" using m0 bitlen_eq_zero_iff [of m] bitlen_nonneg [of m] by linarith
    have i: "ilog2 q = - bitlen m" using False by (simp add: ilog2_def m_def r_def)
    from bitlen_bounds [OF m0] have lo: "2 ^ nat (bitlen m - 1) \<le> m" and hi: "m < 2 ^ nat (bitlen m)"
      by simp_all
    have "r \<le> of_int (2 ^ nat (bitlen m))"
      using rm hi by (meson of_int_le_iff order_trans zless_imp_add1_zle)
    also have "\<dots> = (2::rat) powi (bitlen m)" using b1 by (subst powi_nat) simp_all
    finally have "r \<le> 2 powi (bitlen m)" .
    then have "1 / 2 powi (bitlen m) \<le> 1 / r" using r1 by (intro divide_left_mono) (simp_all add: powi_pos)
    then have "2 powi (- bitlen m) \<le> q" by (simp add: r_def power_int_minus_divide)
    then have A: "2 powi (ilog2 q) \<le> q" by (simp only: i)
    have "(2::rat) powi (bitlen m - 1) = of_int (2 ^ nat (bitlen m - 1))"
      using b1 by (intro powi_nat) simp
    also have "\<dots> \<le> of_int m" using lo by (simp only: of_int_le_iff)
    also have "\<dots> < r" by (rule mr)
    finally have "2 powi (bitlen m - 1) < r" .
    then have "1 / r < 1 / 2 powi (bitlen m - 1)"
      using r1 by (intro divide_strict_left_mono) (simp_all add: powi_pos)
    moreover have "(2::rat) powi (- bitlen m + 1) = 1 / 2 powi (bitlen m - 1)"
      by (simp flip: power_int_minus_divide)
    ultimately have "q < 2 powi (- bitlen m + 1)" by (simp add: r_def)
    then have B: "q < 2 powi (ilog2 q + 1)" by (simp only: i)
    from A B show ?thesis ..
  qed
  then show "2 powi (ilog2 q) \<le> q" and "q < 2 powi (ilog2 q + 1)" by simp_all
qed

lemma ilog2_unique:
  assumes "0 < q" "2 powi i \<le> q" "q < 2 powi (i + 1)"
  shows "ilog2 q = i"
proof (rule ccontr)
  assume ne: "ilog2 q \<noteq> i"
  note b = ilog2_bounds [OF assms(1)]
  show False
  proof (cases "ilog2 q < i")
    case True
    then have "(2::rat) powi (ilog2 q + 1) \<le> 2 powi i" by (intro powi_mono) simp
    with b(2) assms(2) show False by linarith
  next
    case False
    with ne have "i + 1 \<le> ilog2 q" by simp
    then have "(2::rat) powi (i + 1) \<le> 2 powi (ilog2 q)" by (intro powi_mono)
    with b(1) assms(3) show False by linarith
  qed
qed

lemma ilog2_mono:
  assumes "0 < p" "p \<le> q"
  shows "ilog2 p \<le> ilog2 q"
proof (rule ccontr)
  assume "\<not> ilog2 p \<le> ilog2 q"
  then have "ilog2 q + 1 \<le> ilog2 p" by simp
  then have "(2::rat) powi (ilog2 q + 1) \<le> 2 powi (ilog2 p)" by (intro powi_mono)
  moreover have "0 < q" using assms by simp
  ultimately show False
    using ilog2_bounds(1) [OF assms(1)] ilog2_bounds(2) [of q] assms(2) by linarith
qed

subsection \<open>Rounding\<close>

lemma round_half_even_of_int: "round_half_even (of_int n) = n"
  by (simp add: round_half_even_def)

lemma round_half_even_lower: "\<lfloor>x\<rfloor> \<le> round_half_even x"
  by (simp add: round_half_even_def Let_def)

lemma round_half_even_upper: "round_half_even x \<le> \<lceil>x\<rceil>"
proof (cases "x = of_int \<lfloor>x\<rfloor>")
  case True
  then have "round_half_even x = \<lfloor>x\<rfloor>"
    by (metis round_half_even_of_int)
  then show ?thesis by (simp add: floor_le_ceiling)
next
  case False
  then have "\<lceil>x\<rceil> = \<lfloor>x\<rfloor> + 1"
    by (metis ceiling_altdef)
  then show ?thesis by (simp add: round_half_even_def Let_def)
qed

lemma round_half_even_mono:
  assumes "x \<le> y"
  shows "round_half_even x \<le> round_half_even y"
proof (cases "\<lfloor>x\<rfloor> = \<lfloor>y\<rfloor>")
  case True
  then show ?thesis using assms by (auto simp: round_half_even_def Let_def)
next
  case False
  then have "\<lfloor>x\<rfloor> < \<lfloor>y\<rfloor>" using floor_mono [OF assms] by simp
  then have "\<lceil>x\<rceil> \<le> \<lfloor>y\<rfloor>" by (simp add: ceiling_le_iff floor_less_iff)
  then show ?thesis
    using round_half_even_upper [of x] round_half_even_lower [of y] by linarith
qed

lemma round_double_pos:
  "0 < q \<Longrightarrow> round_double q =
     of_int (round_half_even (q / 2 powi (ilog2 q - 52))) * 2 powi (ilog2 q - 52)"
  by (simp add: round_double_def Let_def)

lemma scaled_bounds:
  assumes "0 < q"
  shows "2 ^ 52 \<le> q / 2 powi (ilog2 q - 52)" and "q / 2 powi (ilog2 q - 52) < 2 ^ 53"
proof -
  have e: "(2::rat) powi (ilog2 q) = 2 powi (ilog2 q - 52) * 2 ^ 52"
    "(2::rat) powi (ilog2 q + 1) = 2 powi (ilog2 q - 52) * 2 ^ 53"
    by (simp_all add: power_int_diff power_int_add)
  from ilog2_bounds [OF assms] show "2 ^ 52 \<le> q / 2 powi (ilog2 q - 52)"
    and "q / 2 powi (ilog2 q - 52) < 2 ^ 53"
    unfolding e by (simp_all add: pos_le_divide_eq pos_divide_less_eq powi_pos mult.commute)
qed

lemma round_double_exact:
  assumes "0 \<le> m" "m < 2 ^ 53"
  shows "round_double (of_int m * 2 powi j) = of_int m * 2 powi j"
proof (cases "m = 0")
  case True
  then show ?thesis by (simp add: round_double_def)
next
  case False
  define q :: rat where "q = of_int m * 2 powi j"
  define e where "e = ilog2 q - 52"
  have m: "0 < m" using assms False by simp
  have q: "0 < q" by (simp add: q_def m powi_pos)
  have s: "q / 2 powi e = of_int m * 2 powi (j - e)"
    by (simp add: q_def power_int_diff)
  have "e \<le> j"
  proof (rule ccontr)
    assume "\<not> e \<le> j"
    then have "j - e \<le> - 1" by simp
    then have "(2::rat) powi (j - e) \<le> 2 powi (- 1)" by (rule powi_mono)
    then have "of_int m * (2::rat) powi (j - e) \<le> of_int m * (1 / 2)"
      using m by (intro mult_left_mono) simp_all
    moreover have "(of_int m :: rat) < 2 ^ 53" using assms(2) by (metis of_int_less_iff of_int_numeral of_int_power)
    ultimately have "q / 2 powi e < 2 ^ 52" unfolding s by simp
    with scaled_bounds(1) [OF q] show False by (simp add: e_def)
  qed
  then have "(2::rat) powi (j - e) = of_int (2 ^ nat (j - e))" by (intro powi_nat) simp
  then have "q / 2 powi e = of_int (m * 2 ^ nat (j - e))" unfolding s by simp
  then have "of_int (round_half_even (q / 2 powi e)) = q / 2 powi e"
    by (simp only: round_half_even_of_int)
  then have "round_double q = q"
    using q by (simp add: round_double_pos e_def powi_pos)
  then show ?thesis by (simp add: q_def)
qed

lemma round_double_nonneg:
  assumes "0 \<le> q"
  shows "0 \<le> round_double q"
proof (cases "q = 0")
  case True
  then show ?thesis by (simp add: round_double_def)
next
  case False
  then have q: "0 < q" using assms by simp
  have "0 \<le> \<lfloor>q / 2 powi (ilog2 q - 52)\<rfloor>" using scaled_bounds(1) [OF q]
    by (simp add: le_floor_iff)
  then have "0 \<le> round_half_even (q / 2 powi (ilog2 q - 52))"
    using round_half_even_lower order_trans by blast
  then show ?thesis using q by (simp add: round_double_pos powi_pos)
qed

lemma round_double_mono:
  assumes "0 \<le> p" "p \<le> q"
  shows "round_double p \<le> round_double q"
proof (cases "p = 0")
  case True
  then show ?thesis using assms round_double_nonneg [of q] by (simp add: round_double_def)
next
  case False
  then have p: "0 < p" using assms by simp
  then have q: "0 < q" using assms by simp
  define a where "a = ilog2 p - 52"
  define b where "b = ilog2 q - 52"
  have ab: "a \<le> b" using ilog2_mono [OF p assms(2)] by (simp add: a_def b_def)
  have rp: "round_double p = of_int (round_half_even (p / 2 powi a)) * 2 powi a"
    using p by (simp add: round_double_pos a_def)
  have rq: "round_double q = of_int (round_half_even (q / 2 powi b)) * 2 powi b"
    using q by (simp add: round_double_pos b_def)
  show ?thesis
  proof (cases "a = b")
    case True
    have "p / 2 powi b \<le> q / 2 powi b" using assms(2) by (simp add: divide_right_mono powi_pos less_imp_le)
    then have "round_half_even (p / 2 powi b) \<le> round_half_even (q / 2 powi b)"
      by (rule round_half_even_mono)
    then show ?thesis unfolding rp rq True
      by (simp add: mult_right_mono powi_pos less_imp_le)
  next
    case False
    then have lt: "a + 1 \<le> b" using ab by simp
    have "round_half_even (p / 2 powi a) \<le> \<lceil>p / 2 powi a\<rceil>" by (rule round_half_even_upper)
    also have "\<dots> \<le> 2 ^ 53" using scaled_bounds(2) [OF p] unfolding a_def [symmetric]
      by (simp add: ceiling_le_iff less_imp_le)
    finally have "(of_int (round_half_even (p / 2 powi a)) :: rat) \<le> 2 ^ 53"
      by (metis of_int_le_iff of_int_numeral of_int_power)
    then have "round_double p \<le> 2 ^ 53 * 2 powi a" unfolding rp
      by (intro mult_right_mono) (simp_all add: powi_pos less_imp_le)
    also have "\<dots> = 2 ^ 52 * 2 powi (a + 1)" by (simp add: power_int_add)
    also have "\<dots> \<le> 2 ^ 52 * 2 powi b" using lt by (intro mult_left_mono powi_mono) simp_all
    also have "\<dots> \<le> round_double q"
    proof -
      have "(2 ^ 52 :: int) \<le> \<lfloor>q / 2 powi b\<rfloor>" using scaled_bounds(1) [OF q] unfolding b_def [symmetric]
        by (simp add: le_floor_iff)
      also have "\<dots> \<le> round_half_even (q / 2 powi b)" by (rule round_half_even_lower)
      finally have "(2 ^ 52 :: rat) \<le> of_int (round_half_even (q / 2 powi b))"
        by (metis of_int_le_iff of_int_numeral of_int_power)
      then show ?thesis unfolding rq by (intro mult_right_mono) (simp_all add: powi_pos less_imp_le)
    qed
    finally show ?thesis .
  qed
qed

subsection \<open>Conversions between \<^verbatim>\<open>size_t\<close> and \<^verbatim>\<open>double\<close>\<close>

lemma unat_add_pad:
  fixes sz p :: size_t
  shows "unat (sz + 2 * p) = (unat sz + 2 * unat p) mod 2 ^ 64"
proof -
  have "sz + 2 * p = word_of_nat (unat sz + 2 * unat p)" by simp
  then show ?thesis by (simp only: unat_of_nat) simp
qed

lemma word_diff_exact:
  fixes sz p k :: size_t
  assumes "unat k \<le> unat sz + 2 * unat p" "unat sz + 2 * unat p - unat k < 2 ^ 64"
  shows "unat (sz + 2 * p - k) = unat sz + 2 * unat p - unat k"
proof -
  have "sz + 2 * p - k = word_of_nat (unat sz + 2 * unat p) - word_of_nat (unat k)"
    by simp
  also have "\<dots> = word_of_nat (unat sz + 2 * unat p - unat k)"
    using assms(1) by (simp add: of_nat_diff)
  finally have "unat (sz + 2 * p - k) = (unat sz + 2 * unat p - unat k) mod 2 ^ 64"
    by (simp only: unat_of_nat) simp
  then show ?thesis using assms(2) by simp
qed

lemma word_diff_wrap:
  fixes sz p k :: size_t
  assumes "unat sz + 2 * unat p < unat k"
  shows "unat (sz + 2 * p - k) = 2 ^ 64 - (unat k - (unat sz + 2 * unat p))"
proof -
  have k: "unat k < 2 ^ 64" using unsigned_less [of k] by simp
  then have a: "unat (sz + 2 * p) = unat sz + 2 * unat p"
    using assms by (simp add: unat_add_pad)
  have "unat (sz + 2 * p - k) = unat (sz + 2 * p) + 2 ^ 64 - unat k"
    using assms a by (simp add: unat_sub_if_size word_size)
  then show ?thesis using assms k a by simp
qed

lemma round_double_of_nat_exact: "n < 2 ^ 53 \<Longrightarrow> round_double (of_nat n) = of_nat n"
  using round_double_exact [of "int n" 0] by simp

lemma round_double_pow2: "round_double (2 ^ n) = 2 ^ n"
  using round_double_exact [of 1 "int n"] by simp

lemma to_double_exact: "unat n < 2 ^ 53 \<Longrightarrow> to_double n = of_nat (unat n)"
  by (simp add: to_double_def round_double_of_nat_exact del: of_nat_unat)

lemma to_double_nonneg: "0 \<le> to_double n"
  unfolding to_double_def by (rule round_double_nonneg) (rule of_nat_0_le_iff)

lemma to_double_le: "to_double n \<le> 2 ^ 64"
proof -
  have "unat n < 2 ^ 64" using unsigned_less [of n] by simp
  then have "(of_nat (unat n) :: rat) \<le> of_nat (2 ^ 64)" by (simp only: of_nat_le_iff)
  then have "round_double (of_nat (unat n)) \<le> round_double (2 ^ 64)"
    by (intro round_double_mono) (simp_all del: of_nat_unat)
  then show ?thesis
    using round_double_pow2 [of 64] by (simp add: to_double_def del: of_nat_unat)
qed

lemma to_double_ge:
  assumes "m \<le> unat n" "m < 2 ^ 53"
  shows "of_nat m \<le> to_double n"
proof -
  have "round_double (of_nat m) \<le> round_double (of_nat (unat n))"
    using assms(1) by (intro round_double_mono) (simp_all del: of_nat_unat)
  then show ?thesis
    using assms(2) by (simp add: to_double_def round_double_of_nat_exact del: of_nat_unat)
qed

lemma to_double_0_iff: "to_double s = 0 \<longleftrightarrow> s = 0"
proof
  assume z: "to_double s = 0"
  show "s = 0"
  proof (rule ccontr)
    assume "s \<noteq> 0"
    then have "1 \<le> unat s" by (simp add: unat_gt_0 Suc_leI)
    then have "of_nat 1 \<le> to_double s" by (intro to_double_ge) simp_all
    with z show False by simp
  qed
next
  assume "s = 0"
  then show "to_double s = 0" by (simp add: to_double_def round_double_def)
qed

lemma round_double_between:
  assumes "0 \<le> a" "a \<le> q" "q \<le> b" "round_double a = a" "round_double b = b"
  shows "a \<le> round_double q" and "round_double q \<le> b"
proof -
  have "round_double a \<le> round_double q" using assms(1,2) by (rule round_double_mono)
  then show "a \<le> round_double q" by (simp only: assms(4))
  have "0 \<le> q" using assms(1,2) by simp
  then have "round_double q \<le> round_double b" using assms(3) by (rule round_double_mono)
  then show "round_double q \<le> b" by (simp only: assms(5))
qed

lemma dyadic_exact:
  assumes "0 \<le> m" "m < 2 ^ 53"
  shows "round_double (of_int m / 2 ^ c) = of_int m / 2 ^ c"
proof -
  have "(of_int m :: rat) / 2 ^ c = of_int m * 2 powi (- int c)"
    by (simp add: power_int_minus_divide)
  then show ?thesis using round_double_exact [OF assms, of "- int c"] by simp
qed

lemma floor_round_add_one:
  assumes n: "0 \<le> n"
    and lo: "of_int n \<le> q"
    and hi: "q \<le> of_int ((n + 1) * 2 ^ c - 1) / 2 ^ c"
    and small: "(n + 2) * 2 ^ c \<le> 2 ^ 53"
  shows "\<lfloor>round_double (round_double q + 1)\<rfloor> = n + 1"
proof -
  define P :: int where "P = 2 ^ c"
  have p: "1 \<le> P" by (simp add: P_def)
  have np: "n * 1 \<le> n * P" by (rule mult_left_mono [OF p n])
  have e: "(n + 1) * P = n * P + P" "(n + 2) * P = n * P + 2 * P"
    by (simp_all add: algebra_simps)
  have s: "n * P + 2 * P \<le> 2 ^ 53" using small by (simp add: P_def algebra_simps)
  have m1: "0 \<le> (n + 1) * 2 ^ c - 1" "(n + 1) * 2 ^ c - 1 < 2 ^ 53"
    and m2: "0 \<le> (n + 2) * 2 ^ c - 1" "(n + 2) * 2 ^ c - 1 < 2 ^ 53"
    and n53: "n + 1 < 2 ^ 53"
    unfolding P_def [symmetric] e using n p np s by simp_all
  define b :: rat where "b = of_int ((n + 1) * 2 ^ c - 1) / 2 ^ c"
  have ea: "round_double (of_int n) = of_int n"
    using dyadic_exact [of n 0] n n53 by simp
  have eb: "round_double b = b" unfolding b_def by (rule dyadic_exact [OF m1])
  have Q: "of_int n \<le> round_double q" "round_double q \<le> b"
    using round_double_between [OF _ lo _ ea eb] n hi by (simp_all add: b_def)
  have b1: "b + 1 = of_int ((n + 2) * 2 ^ c - 1) / 2 ^ c"
    by (simp add: b_def field_simps)
  have ea1: "round_double (of_int (n + 1)) = of_int (n + 1)"
    using dyadic_exact [of "n + 1" 0] n n53 by simp
  have eb1: "round_double (b + 1) = b + 1" unfolding b1 by (rule dyadic_exact [OF m2])
  have R: "of_int (n + 1) \<le> round_double (round_double q + 1)"
    "round_double (round_double q + 1) \<le> b + 1"
    using round_double_between [OF _ _ _ ea1 eb1, of "round_double q + 1"] n Q by simp_all
  have "b + 1 < of_int (n + 2)" unfolding b1
    by (simp add: field_simps)
  with R(2) have "round_double (round_double q + 1) < of_int (n + 1) + 1" by simp
  with R(1) show ?thesis by (simp add: floor_unique)
qed

section \<open>\<^verbatim>\<open>ConvOutSize\<close>\<close>

lemma to_size_t_Inr:
  assumes "0 \<le> r" "\<lfloor>r\<rfloor> = n" "n < 2 ^ 64"
  shows "to_size_t r = Inr (word_of_int n)"
proof -
  have "0 \<le> n" using assms(1,2) by auto
  then show ?thesis using assms by (simp add: to_size_t_def truncate_double_def)
qed

lemma ConvOutSize_nonzero:
  "s \<noteq> 0 \<Longrightarrow> ConvOutSize sz k s p =
     to_size_t (round_double (round_double
       (floor_double (to_double (sz + 2 * p - k)) / to_double s) + 1))"
  by (simp add: ConvOutSize_def Let_def to_double_0_iff)


text \<open>
  The quotient of two integers below \<open>2 ^ 52\<close>, rounded, plus 1, rounded, has the
  floor of the exact quotient plus 1 as its integer part: between the exact quotient and
  the next integer lies a \<^verbatim>\<open>double\<close> that is still a \<^verbatim>\<open>double\<close> when 1 is added.
\<close>

lemma quotient_hi:
  fixes x t n P :: int
  assumes t: "0 < t" and P: "0 < P" and xt: "x + 1 \<le> (n + 1) * t" and tP: "t \<le> P"
  shows "(of_int x :: rat) / of_int t \<le> of_int ((n + 1) * P - 1) / of_int P"
proof -
  have "x * P \<le> ((n + 1) * t - 1) * P"
    using xt P by (intro mult_right_mono) simp_all
  also have "\<dots> = (n + 1) * P * t - P" by (simp add: algebra_simps)
  also have "\<dots> \<le> (n + 1) * P * t - t" using tP by simp
  also have "\<dots> = ((n + 1) * P - 1) * t" by (simp add: algebra_simps)
  finally have "(of_int (x * P) :: rat) \<le> of_int (((n + 1) * P - 1) * t)"
    by (simp only: of_int_le_iff)
  then have "(of_int x :: rat) * of_int P \<le> of_int ((n + 1) * P - 1) * of_int t"
    by simp
  then show ?thesis using t P by (simp add: field_simps)
qed

lemma quotient_hi_top:
  fixes x t n P :: int
  assumes t: "0 < t" and P: "0 < P" and x: "x < 2 ^ 52" and tx: "t \<le> x"
    and top: "(n + 1) * P = 2 ^ 52" and Pt: "P < t"
  shows "(of_int x :: rat) / of_int t \<le> of_int ((n + 1) * P - 1) / of_int P"
proof -
  have "x * P \<le> (2 ^ 52 - 1) * P" using x P by (intro mult_right_mono) simp_all
  also have "\<dots> = 2 ^ 52 * P - P" by (simp add: algebra_simps)
  also have "\<dots> \<le> 2 ^ 52 * (t - 1) - P" using Pt by simp
  also have "\<dots> \<le> 2 ^ 52 * t - t" using tx x P by simp
  also have "\<dots> = ((n + 1) * P - 1) * t" unfolding top by (simp add: algebra_simps)
  finally have "(of_int (x * P) :: rat) \<le> of_int (((n + 1) * P - 1) * t)"
    by (simp only: of_int_le_iff)
  then have "(of_int x :: rat) * of_int P \<le> of_int ((n + 1) * P - 1) * of_int t"
    by simp
  then show ?thesis using t P by (simp add: field_simps)
qed

lemma floor_quotient_add_one:
  fixes x t :: int
  assumes t: "0 < t" and tx: "t \<le> x" and x: "x < 2 ^ 52"
  shows "\<lfloor>round_double (round_double (of_int x / of_int t) + 1)\<rfloor> = x div t + 1"
proof -
  define n where "n = x div t"
  define q :: rat where "q = of_int x / of_int t"
  have "0 < x div t" using t tx by (simp add: pos_imp_zdiv_pos_iff)
  then have n1: "1 \<le> n" by (simp add: n_def)
  have dm: "t * (x div t) + x mod t = x" by simp
  have m: "0 \<le> x mod t" "x mod t < t" using t by simp_all
  have e: "n * t = t * (x div t)" "(n + 1) * t = t * (x div t) + t"
    by (simp_all add: n_def algebra_simps)
  have nt: "n * t \<le> x" and xt: "x + 1 \<le> (n + 1) * t"
    unfolding e using dm m by linarith+
  have lo: "of_int n \<le> q"
  proof -
    have "(of_int (n * t) :: rat) \<le> of_int x" using nt by (simp only: of_int_le_iff)
    then show ?thesis using t by (simp add: q_def pos_le_divide_eq)
  qed
  define L where "L = bitlen n"
  define A :: int where "A = 2 ^ nat (L - 1)"
  have n0: "0 < n" using n1 by simp
  have L1: "1 \<le> L" using n0 bitlen_eq_zero_iff [of n] bitlen_nonneg [of n] by (simp add: L_def)
  have "nat L = Suc (nat (L - 1))" using L1 by simp
  then have A2: "2 ^ nat L = 2 * A" by (simp add: A_def)
  have An: "A \<le> n" and nA: "n < 2 * A"
    using bitlen_bounds [OF n0] unfolding L_def [symmetric] A_def [symmetric] A2 by simp_all
  have A0: "0 < A" by (simp add: A_def)
  have nx: "n \<le> x"
  proof -
    have "n * 1 \<le> n * t" using t n0 by (intro mult_left_mono) simp_all
    with nt show ?thesis by simp
  qed
  have "A < 2 ^ 52" using An nx x by simp
  then have "nat (L - 1) < 52"
    unfolding A_def using power_less_imp_less_exp [of "2 :: int" "nat (L - 1)" 52] by simp
  then have L52: "L \<le> 52" by simp
  have tA: "t * A < 2 ^ 52"
  proof -
    have "t * A \<le> t * n" using An t by (intro mult_left_mono) simp_all
    with nt x show ?thesis by (simp add: mult.commute)
  qed
  have fl: "\<lfloor>round_double (round_double q + 1)\<rfloor> = n + 1"
  proof (cases "n + 2 \<le> 2 * A")
    case True
    define c where "c = nat (53 - L)"
    define P :: int where "P = 2 ^ c"
    have "nat (L - 1) + c = 52" using L1 L52 by (simp add: c_def)
    then have "A * P = 2 ^ (52 :: nat)" unfolding A_def P_def by (simp flip: power_add)
    then have AP: "A * P = 2 ^ 52" by simp
    have P0: "0 < P" by (simp add: P_def)
    have tP: "t \<le> P"
    proof (rule ccontr)
      assume "\<not> t \<le> P"
      then have "P * A \<le> t * A" using A0 by (intro mult_right_mono) simp_all
      with tA AP show False by (simp add: mult.commute)
    qed
    have hi: "q \<le> of_int ((n + 1) * 2 ^ c - 1) / 2 ^ c"
      using quotient_hi [OF t P0 xt tP] by (simp add: q_def P_def)
    have sm: "(n + 2) * 2 ^ c \<le> 2 ^ 53"
    proof -
      have "(n + 2) * P \<le> (2 * A) * P" using True P0 by (intro mult_right_mono) simp_all
      also have "\<dots> = 2 ^ 53" using AP by simp
      finally show ?thesis by (simp add: P_def)
    qed
    show ?thesis using n0 by (intro floor_round_add_one [OF _ lo hi sm]) simp
  next
    case False
    then have top: "n + 1 = 2 * A" using nA by simp
    define c where "c = nat (52 - L)"
    define P :: int where "P = 2 ^ c"
    have "nat (L - 1) + c = 51" using L1 L52 by (simp add: c_def)
    then have "A * P = 2 ^ (51 :: nat)" unfolding A_def P_def by (simp flip: power_add)
    then have AP: "A * P = 2 ^ 51" by simp
    then have nP: "(n + 1) * P = 2 ^ 52" by (simp add: top)
    have P0: "0 < P" by (simp add: P_def)
    have "1 * P \<le> A * P" using A0 P0 by (intro mult_right_mono) simp_all
    then have P51: "P \<le> 2 ^ 51" using AP by simp
    have hi: "q \<le> of_int ((n + 1) * 2 ^ c - 1) / 2 ^ c"
    proof (cases "t \<le> P")
      case True
      show ?thesis using quotient_hi [OF t P0 xt True] by (simp add: q_def P_def)
    next
      case False
      then have "P < t" by simp
      from quotient_hi_top [OF t P0 x tx nP this] show ?thesis by (simp add: q_def P_def)
    qed
    have sm: "(n + 2) * 2 ^ c \<le> 2 ^ 53"
    proof -
      have "(n + 2) * P = (n + 1) * P + P" by (simp add: algebra_simps)
      then show ?thesis using nP P51 by (simp add: P_def)
    qed
    show ?thesis using n0 by (intro floor_round_add_one [OF _ lo hi sm]) simp
  qed
  then show ?thesis by (simp add: q_def n_def)
qed

text \<open>
  Below \<open>2 ^ 52\<close> the detour through \<^verbatim>\<open>double\<close> does not show. The bound is not far
  from the first failure, which \<open>ConvOutSize_rounds_up\<close> below shows between
  \<open>2 ^ 52\<close> and \<open>2 ^ 53\<close>.
\<close>

lemma ConvOutSize_exact:
  fixes sz k s p :: size_t
  assumes s: "0 < unat s"
    and le: "unat k \<le> unat sz + 2 * unat p"
    and small: "unat sz + 2 * unat p - unat k < 2 ^ 52"
  shows "ConvOutSize sz k s p =
    Inr (word_of_nat ((unat sz + 2 * unat p - unat k) div unat s + 1))"
proof -
  define x where "x = unat sz + 2 * unat p - unat k"
  define t where "t = unat s"
  define n where "n = x div t"
  have x52: "x < 2 ^ 52" using small by (simp add: x_def)
  have t0: "0 < t" using s by (simp add: t_def)
  have ux: "unat (sz + 2 * p - k) = x"
    unfolding x_def using le small by (intro word_diff_exact) simp_all
  have "to_double (sz + 2 * p - k) = of_nat x"
    using to_double_exact [of "sz + 2 * p - k"] x52 by (simp add: ux del: of_nat_unat)
  then have X: "floor_double (to_double (sz + 2 * p - k)) = of_nat x"
    by (simp add: floor_double_def)
  have s0: "s \<noteq> 0" using s by auto
  define q :: rat where "q = of_nat x / to_double s"
  have fl: "\<lfloor>round_double (round_double q + 1)\<rfloor> = int n + 1"
  proof (cases "t \<le> x")
    case True
    have "unat s < 2 ^ 53" using True x52 by (simp add: t_def)
    then have D: "to_double s = of_nat t"
      using to_double_exact [of s] by (simp add: t_def del: of_nat_unat)
    have "\<lfloor>round_double (round_double (of_int (int x) / of_int (int t)) + 1)\<rfloor> =
        int x div int t + 1"
      using t0 True x52 by (intro floor_quotient_add_one) simp_all
    then show ?thesis by (simp add: q_def D n_def zdiv_int)
  next
    case False
    then have n0: "n = 0" by (simp add: n_def)
    have d: "of_nat (x + 1) \<le> to_double s"
      using False x52 by (intro to_double_ge) (simp_all add: t_def)
    then have dpos: "0 < to_double s" by (simp add: add_pos_nonneg)
    have lo: "of_int 0 \<le> q" using dpos by (simp add: q_def)
    have "q \<le> of_nat x / of_nat (x + 1)"
      unfolding q_def using d by (intro divide_left_mono) (simp_all add: dpos add_pos_nonneg)
    also have "\<dots> \<le> of_int (2 ^ 52 - 1) / 2 ^ 52"
    proof -
      have "x * 2 ^ 52 \<le> (2 ^ 52 - 1) * (x + 1)" using x52 by simp
      then have "(of_nat (x * 2 ^ 52) :: rat) \<le> of_nat ((2 ^ 52 - 1) * (x + 1))"
        by (simp only: of_nat_le_iff)
      then show ?thesis by (simp add: field_simps)
    qed
    finally have hi: "q \<le> of_int ((0 + 1) * 2 ^ 52 - 1) / 2 ^ 52" by simp
    have "\<lfloor>round_double (round_double q + 1)\<rfloor> = 0 + 1"
      by (rule floor_round_add_one [OF _ lo hi]) simp_all
    then show ?thesis by (simp add: n0)
  qed
  have "0 \<le> \<lfloor>round_double (round_double q + 1)\<rfloor>" using fl by simp
  then have "0 \<le> round_double (round_double q + 1)" by (simp only: zero_le_floor)
  moreover have "int n + 1 < 2 ^ 64"
  proof -
    have "n \<le> x" by (simp add: n_def)
    then show ?thesis using x52 by simp
  qed
  ultimately have "to_size_t (round_double (round_double q + 1)) = Inr (word_of_int (int n + 1))"
    using fl by (intro to_size_t_Inr)
  then show ?thesis
    by (simp add: ConvOutSize_nonzero [OF s0] X q_def n_def x_def t_def)
qed

lemma ConvOutSize_zero_stride: "ConvOutSize sz k 0 p = Inl DivisionByZero"
  by (simp add: ConvOutSize_def Let_def to_double_0_iff)

lemma floor_double_bounds:
  assumes "0 \<le> y" "y \<le> 2 ^ 64"
  shows "0 \<le> floor_double y" and "floor_double y \<le> 2 ^ 64"
proof -
  show "0 \<le> floor_double y" using assms(1) by (simp add: floor_double_def)
  have "floor_double y \<le> y" by (simp add: floor_double_def)
  then show "floor_double y \<le> 2 ^ 64" using assms(2) by (rule order_trans)
qed

lemma floor_double_ge:
  assumes "of_int m \<le> y"
  shows "of_int m \<le> floor_double y"
  using assms by (simp add: floor_double_def le_floor_iff)

lemma ConvOutSize_defined:
  assumes "2 \<le> unat s"
  shows "\<exists>w. ConvOutSize sz k s p = Inr w"
proof -
  define X where "X = floor_double (to_double (sz + 2 * p - k))"
  define D where "D = to_double s"
  have X: "0 \<le> X" "X \<le> 2 ^ 64"
    unfolding X_def by (rule floor_double_bounds [OF to_double_nonneg to_double_le])+
  have "of_nat 2 \<le> D" unfolding D_def using assms by (intro to_double_ge) simp_all
  then have D: "2 \<le> D" by simp
  have s0: "s \<noteq> 0" using assms by auto
  have q0: "0 \<le> X / D" using X(1) D by simp
  have "X / D \<le> X / 2" using X(1) D by (intro divide_left_mono) simp_all
  also have "\<dots> \<le> 2 ^ 63" using X(2) by simp
  finally have q1: "X / D \<le> 2 ^ 63" .
  have Q: "0 \<le> round_double (X / D)" "round_double (X / D) \<le> 2 ^ 63"
    using round_double_between [OF _ q0 q1 _ round_double_pow2 [of 63]]
    by (simp_all add: round_double_def)
  have e: "round_double (of_int (2 ^ 52 + 1) * 2 powi 11) = of_int (2 ^ 52 + 1) * 2 powi 11"
    by (rule round_double_exact) simp_all
  have R: "0 \<le> round_double (round_double (X / D) + 1)"
    "round_double (round_double (X / D) + 1) \<le> of_int (2 ^ 52 + 1) * 2 powi 11"
    using round_double_between [OF _ _ _ _ e, of 0 "round_double (X / D) + 1"] Q
    by (simp_all add: round_double_def)
  have "\<lfloor>round_double (round_double (X / D) + 1)\<rfloor> < 2 ^ 64"
    using R(2) by (simp add: floor_less_iff)
  then have "to_size_t (round_double (round_double (X / D) + 1)) =
      Inr (word_of_int \<lfloor>round_double (round_double (X / D) + 1)\<rfloor>)"
    using R(1) by (intro to_size_t_Inr) simp_all
  then show ?thesis by (simp add: ConvOutSize_nonzero [OF s0] X_def D_def)
qed

lemma round_double_near_top: "round_double (2 ^ 64 - 1024) = 2 ^ 64"
  by code_simp

lemma round_double_above_top: "round_double (2 ^ 64 + 1) = 2 ^ 64"
  by code_simp

lemma ConvOutSize_stride1_wrap:
  assumes "2 ^ 64 - 1024 \<le> unat (sz + 2 * p - k)"
  shows "ConvOutSize sz k 1 p = Inl ConversionOutOfRange"
proof -
  have "round_double (2 ^ 64 - 1024) \<le> round_double (of_nat (unat (sz + 2 * p - k)))"
  proof (rule round_double_mono)
    have "(of_nat (2 ^ 64 - 1024) :: rat) \<le> of_nat (unat (sz + 2 * p - k))"
      using assms by (simp only: of_nat_le_iff)
    then show "(2 ^ 64 - 1024 :: rat) \<le> of_nat (unat (sz + 2 * p - k))" by simp
  qed simp
  then have "2 ^ 64 \<le> to_double (sz + 2 * p - k)"
    using round_double_near_top by (simp add: to_double_def del: of_nat_unat)
  with to_double_le [of "sz + 2 * p - k"] have X: "to_double (sz + 2 * p - k) = 2 ^ 64"
    by simp
  have D: "to_double 1 = 1" using to_double_exact [of 1] by simp
  have Q: "round_double (2 ^ 64) = 2 ^ 64" by (rule round_double_pow2)
  show ?thesis
    using Q round_double_above_top
    by (simp add: ConvOutSize_def Let_def X D floor_double_def to_size_t_def truncate_double_def)
qed

text \<open>
  With stride 1 the result fits \<^verbatim>\<open>size_t\<close> as soon as the numerator is at most
  \<open>2 ^ 64 - 1025\<close>: it then rounds to at most \<open>2 ^ 64 - 2048\<close>, and so does the sum
  with 1. The result is never much smaller than the numerator divided by the stride.
\<close>

lemma ConvOutSize_at_least:
  assumes r: "ConvOutSize sz k s p = Inr w"
    and x: "2 ^ a \<le> unat (sz + 2 * p - k)"
    and s: "s \<noteq> 0" "unat s \<le> 2 ^ c"
    and ca: "c \<le> a"
  shows "2 ^ (a - c) \<le> unat w"
proof -
  define X where "X = floor_double (to_double (sz + 2 * p - k))"
  define D where "D = to_double s"
  define R where "R = round_double (round_double (X / D) + 1)"
  have "round_double (2 ^ a) \<le> round_double (of_nat (unat (sz + 2 * p - k)))"
  proof (rule round_double_mono)
    have "(of_nat (2 ^ a) :: rat) \<le> of_nat (unat (sz + 2 * p - k))"
      using x by (simp only: of_nat_le_iff)
    then show "(2 ^ a :: rat) \<le> of_nat (unat (sz + 2 * p - k))" by simp
  qed simp
  then have "of_int (2 ^ a) \<le> to_double (sz + 2 * p - k)"
    by (simp add: round_double_pow2 to_double_def del: of_nat_unat)
  then have "of_int (2 ^ a) \<le> X" unfolding X_def by (rule floor_double_ge)
  then have X: "2 ^ a \<le> X" by simp
  have Dpos: "0 < D"
    using to_double_nonneg [of s] to_double_0_iff [of s] s(1) by (simp add: D_def less_le)
  have "round_double (of_nat (unat s)) \<le> round_double (2 ^ c)"
  proof (rule round_double_mono)
    have "(of_nat (unat s) :: rat) \<le> of_nat (2 ^ c)" using s(2) by (simp only: of_nat_le_iff)
    then show "(of_nat (unat s) :: rat) \<le> 2 ^ c" by simp
  qed (rule of_nat_0_le_iff)
  then have D: "D \<le> 2 ^ c"
    by (simp add: round_double_pow2 D_def to_double_def del: of_nat_unat)
  have "2 ^ (a - c) * D \<le> 2 ^ (a - c) * 2 ^ c" using D by (intro mult_left_mono) simp_all
  also have "\<dots> = 2 ^ a" using ca by (simp flip: power_add)
  also have "\<dots> \<le> X" by (rule X)
  finally have q: "2 ^ (a - c) \<le> X / D" using Dpos by (simp add: pos_le_divide_eq)
  have "round_double (2 ^ (a - c)) \<le> round_double (X / D)"
    using q by (intro round_double_mono) simp_all
  then have Q: "2 ^ (a - c) \<le> round_double (X / D)" by (simp only: round_double_pow2)
  have "round_double (2 ^ (a - c)) \<le> R"
    unfolding R_def using Q by (intro round_double_mono) simp_all
  then have R: "2 ^ (a - c) \<le> R" by (simp only: round_double_pow2)
  define m where "m = \<lfloor>R\<rfloor>"
  have "of_int (2 ^ (a - c)) \<le> R" using R by simp
  then have fl: "2 ^ (a - c) \<le> m" unfolding m_def by (simp only: le_floor_iff)
  have R0: "0 \<le> R" using R by (rule order_trans [rotated]) simp
  have "to_size_t R = Inr w" using r by (simp add: ConvOutSize_nonzero [OF s(1)] X_def D_def R_def)
  then have w: "w = word_of_int m" and lt: "m < 2 ^ 64"
    using R0 by (auto simp: to_size_t_def truncate_double_def Let_def m_def split: if_splits)
  have m0: "0 \<le> m" using fl by (rule order_trans [rotated]) simp
  have "unat w = nat m" using m0 lt
    unfolding w by (simp add: unat_eq_nat_uint uint_word_of_int take_bit_int_eq_self)
  moreover have "nat (2 ^ (a - c)) \<le> nat m" using fl by (rule nat_mono)
  ultimately show ?thesis by (simp add: nat_power_eq)
qed

lemma round_double_below_top: "round_double (2 ^ 64 - 1025) = 2 ^ 64 - 2048"
  by code_simp

lemma round_double_below_top_plus_1: "round_double (2 ^ 64 - 2047) = 2 ^ 64 - 2048"
  by code_simp

lemma ConvOutSize_stride1_defined:
  assumes "unat (sz + 2 * p - k) \<le> 2 ^ 64 - 1025"
  shows "\<exists>w. ConvOutSize sz k 1 p = Inr w"
proof -
  define X where "X = floor_double (to_double (sz + 2 * p - k))"
  define b :: rat where "b = 2 ^ 64 - 2048"
  have eb: "round_double b = b"
    using round_double_exact [of "2 ^ 53 - 1" 11] by (simp add: b_def)
  have "round_double (of_nat (unat (sz + 2 * p - k))) \<le> round_double (2 ^ 64 - 1025)"
  proof (rule round_double_mono)
    have "(of_nat (unat (sz + 2 * p - k)) :: rat) \<le> of_nat (2 ^ 64 - 1025)"
      using assms by (simp only: of_nat_le_iff)
    then show "(of_nat (unat (sz + 2 * p - k)) :: rat) \<le> 2 ^ 64 - 1025" by simp
  qed (rule of_nat_0_le_iff)
  then have "to_double (sz + 2 * p - k) \<le> b"
    using round_double_below_top by (simp add: to_double_def b_def del: of_nat_unat)
  moreover have "X \<le> to_double (sz + 2 * p - k)" by (simp add: X_def floor_double_def)
  ultimately have Xb: "X \<le> b" by simp
  have X0: "0 \<le> X" unfolding X_def using to_double_nonneg by (simp add: floor_double_def)
  have "round_double X \<le> round_double b" using X0 Xb by (rule round_double_mono)
  then have Q: "round_double X \<le> b" by (simp only: eb)
  have Q0: "0 \<le> round_double X" using X0 by (rule round_double_nonneg)
  have "round_double (round_double X + 1) \<le> round_double (b + 1)"
    using Q Q0 by (intro round_double_mono) simp_all
  then have R: "round_double (round_double X + 1) \<le> b"
    using round_double_below_top_plus_1 by (simp add: b_def)
  have R0: "0 \<le> round_double (round_double X + 1)"
    using Q0 by (intro round_double_nonneg) simp
  have "\<lfloor>round_double (round_double X + 1)\<rfloor> < 2 ^ 64"
    using R by (simp add: floor_less_iff b_def)
  then have "to_size_t (round_double (round_double X + 1)) =
      Inr (word_of_int \<lfloor>round_double (round_double X + 1)\<rfloor>)"
    using R0 by (intro to_size_t_Inr) simp_all
  moreover have "to_double 1 = 1" using to_double_exact [of 1] by simp
  ultimately show ?thesis
    by (simp add: ConvOutSize_def Let_def X_def)
qed

lemma ConvOutSize_spec_unat:
  assumes "unat k \<le> unat sz + 2 * unat p"
  shows "ConvOutSize_spec (uint sz) (uint k) (uint s) (uint p) =
    int ((unat sz + 2 * unat p - unat k) div unat s + 1)"
proof -
  have "uint sz + 2 * uint p - uint k = int (unat sz + 2 * unat p - unat k)"
    using assms by (simp add: of_nat_diff)
  then show ?thesis by (simp add: ConvOutSize_spec_def zdiv_int)
qed

lemma uint_small_of_nat:
  assumes "n < 2 ^ 64"
  shows "uint (word_of_nat n :: size_t) = int n"
proof -
  have "unat (word_of_nat n :: size_t) = n" using assms by (simp add: unat_of_nat)
  then show ?thesis by (metis uint_nat)
qed

subsection \<open>Values at the sizes the constructor meets\<close>

lemma ConvOutSize_224: "ConvOutSize 224 7 2 3 = Inr 112"
proof -
  have "ConvOutSize 224 7 2 3 = Inr (word_of_nat ((unat (224 :: size_t) + 2 * unat (3 :: size_t)
      - unat (7 :: size_t)) div unat (2 :: size_t) + 1))"
    by (rule ConvOutSize_exact) simp_all
  then show ?thesis by simp
qed

lemma ConvOutSize_114: "ConvOutSize 114 3 2 0 = Inr 56"
proof -
  have "ConvOutSize 114 3 2 0 = Inr (word_of_nat ((unat (114 :: size_t) + 2 * unat (0 :: size_t)
      - unat (3 :: size_t)) div unat (2 :: size_t) + 1))"
    by (rule ConvOutSize_exact) simp_all
  then show ?thesis by simp
qed

lemma ConvOutSize_56_1: "ConvOutSize 56 1 1 1 = Inr 58"
proof -
  have "ConvOutSize 56 1 1 1 = Inr (word_of_nat ((unat (56 :: size_t) + 2 * unat (1 :: size_t)
      - unat (1 :: size_t)) div unat (1 :: size_t) + 1))"
    by (rule ConvOutSize_exact) simp_all
  then show ?thesis by simp
qed

lemma ConvOutSize_58_3: "ConvOutSize 58 3 1 1 = Inr 58"
proof -
  have "ConvOutSize 58 3 1 1 = Inr (word_of_nat ((unat (58 :: size_t) + 2 * unat (1 :: size_t)
      - unat (3 :: size_t)) div unat (1 :: size_t) + 1))"
    by (rule ConvOutSize_exact) simp_all
  then show ?thesis by simp
qed

lemma ConvOutSize_58_1: "ConvOutSize 58 1 1 1 = Inr 60"
proof -
  have "ConvOutSize 58 1 1 1 = Inr (word_of_nat ((unat (58 :: size_t) + 2 * unat (1 :: size_t)
      - unat (1 :: size_t)) div unat (1 :: size_t) + 1))"
    by (rule ConvOutSize_exact) simp_all
  then show ?thesis by simp
qed

lemma ConvOutSize_60_3: "ConvOutSize 60 3 1 1 = Inr 60"
proof -
  have "ConvOutSize 60 3 1 1 = Inr (word_of_nat ((unat (60 :: size_t) + 2 * unat (1 :: size_t)
      - unat (3 :: size_t)) div unat (1 :: size_t) + 1))"
    by (rule ConvOutSize_exact) simp_all
  then show ?thesis by simp
qed

subsection \<open>Values where the formula of the specification fails\<close>

text \<open>
  \<open>1 + 2 * 0 - 3\<close> wraps to \<open>2 ^ 64 - 2\<close>, which rounds to \<open>2 ^ 64\<close> as a
  \<^verbatim>\<open>double\<close>; half of it is \<open>2 ^ 63\<close>, and \<open>2 ^ 63 + 1\<close> rounds back to \<open>2 ^ 63\<close>.
\<close>

lemma round_double_wrapped: "round_double 18446744073709551614 = 18446744073709551616"
  by code_simp

lemma round_double_2_63_plus_1: "round_double 9223372036854775809 = 9223372036854775808"
  by code_simp

lemma ConvOutSize_1_3_2_0: "ConvOutSize 1 3 2 0 = Inr 9223372036854775808"
  using round_double_pow2 [of 1] round_double_pow2 [of 63]
  by (simp add: ConvOutSize_def to_double_def floor_double_def to_size_t_def truncate_double_def
      Let_def round_double_wrapped round_double_2_63_plus_1)

text \<open>
  No wrap-around, and all operands below \<open>2 ^ 53\<close>: the quotient
  \<open>6004799503160661 / 3002399751580331\<close> is just below 2 and rounds to the largest
  \<^verbatim>\<open>double\<close> below 2; adding 1 gives a tie between two neighbours, which goes to 3.
\<close>

lemma round_double_dividend: "round_double 6004799503160661 = 6004799503160661"
  by code_simp

lemma round_double_divisor: "round_double 3002399751580331 = 3002399751580331"
  by code_simp

lemma round_double_quotient:
  "round_double (6004799503160661 / 3002399751580331) = 9007199254740991 / 4503599627370496"
  by code_simp

lemma round_double_tie: "round_double (13510798882111487 / 4503599627370496) = 3"
  by code_simp

lemma ConvOutSize_rounds_up: "ConvOutSize 6004799503160661 0 3002399751580331 0 = Inr 3"
  by (simp add: ConvOutSize_def to_double_def floor_double_def to_size_t_def truncate_double_def
      Let_def round_double_dividend round_double_divisor round_double_quotient round_double_tie)

text \<open>
  A wrapped numerator does not make the result large by itself: a stride of
  \<open>2 ^ 64 - 1\<close>, or a kernel of \<open>2 ^ 64 - 1\<close> that wraps the numerator to 1, gives 2.
\<close>

lemma round_double_max: "round_double 18446744073709551615 = 18446744073709551616"
  by code_simp

lemma round_double_1: "round_double 1 = 1"
  using round_double_pow2 [of 0] by simp

lemma round_double_2: "round_double 2 = 2"
  using round_double_pow2 [of 1] by simp

lemma ConvOutSize_huge_stride: "ConvOutSize 0 1 18446744073709551615 0 = Inr 2"
proof -
  have x: "unat (0 + 2 * 0 - 1 :: size_t) = 18446744073709551615"
    using word_diff_wrap [of "0 :: size_t" 0 1] by simp
  have X: "to_double (0 + 2 * 0 - 1) = 18446744073709551616"
    unfolding to_double_def x using round_double_max by simp
  have d: "unat (18446744073709551615 :: size_t) = 18446744073709551615" by simp
  have D: "to_double 18446744073709551615 = 18446744073709551616"
    unfolding to_double_def d using round_double_max by simp
  show ?thesis
    unfolding ConvOutSize_def Let_def X D
    by (simp add: floor_double_def to_size_t_def truncate_double_def round_double_1
        round_double_2)
qed

lemma ConvOutSize_huge_kernel: "ConvOutSize 0 18446744073709551615 1 0 = Inr 2"
  by (simp add: ConvOutSize_def to_double_def floor_double_def to_size_t_def truncate_double_def
      Let_def round_double_1 round_double_2)

section \<open>The stem and the constructor\<close>

lemmas state_defs = and_then_def assign_inputWidth_def assign_inputHeight_def add_layer_def Let_def

lemmas block_defs = BasicBlock_def ConvolutionBlock3x3_def ConvolutionBlock1x1_def DownSample_def

lemma ResNet_stem_Inr:
  "\<exists>w1 h1 w2 h2.
     ConvOutSize (inputWidth this) 7 2 3 = Inr w1 \<and>
     ConvOutSize (inputHeight this) 7 2 3 = Inr h1 \<and>
     ConvOutSize (w1 + 2) 3 2 0 = Inr w2 \<and>
     ConvOutSize (h1 + 2) 3 2 0 = Inr h2 \<and>
     ResNet_stem this = Inr (this\<lparr>resNet := resNet this @
       [Convolution 3 64 7 7 2 2 3 3 (inputWidth this) (inputHeight this), BatchNorm 64,
        ReLULayer, Padding 1 1 1 1, MaxPooling 3 3 2 2],
       inputWidth := w2, inputHeight := h2\<rparr>)"
proof -
  have two: "2 \<le> unat (2 :: size_t)" by simp
  obtain w1 where w1: "ConvOutSize (inputWidth this) 7 2 3 = Inr w1"
    using ConvOutSize_defined [OF two] by blast
  obtain h1 where h1: "ConvOutSize (inputHeight this) 7 2 3 = Inr h1"
    using ConvOutSize_defined [OF two] by blast
  obtain w2 where w2: "ConvOutSize (w1 + 2) 3 2 0 = Inr w2"
    using ConvOutSize_defined [OF two] by blast
  obtain h2 where h2: "ConvOutSize (h1 + 2) 3 2 0 = Inr h2"
    using ConvOutSize_defined [OF two] by blast
  have "ResNet_stem this = Inr (this\<lparr>resNet := resNet this @
       [Convolution 3 64 7 7 2 2 3 3 (inputWidth this) (inputHeight this), BatchNorm 64,
        ReLULayer, Padding 1 1 1 1, MaxPooling 3 3 2 2],
       inputWidth := w2, inputHeight := h2\<rparr>)"
    by (simp add: ResNet_stem_def state_defs w1 h1 w2 h2)
  with w1 h1 w2 h2 show ?thesis by blast
qed

lemma ResNet_config_supported:
  assumes "v \<in> {18, 34, 50, 101, 152}"
  shows "\<exists>numBlockArray builderBlock. ResNet_config v = Inr (numBlockArray, builderBlock)"
  using assms by (auto simp: ResNet_config_def)

lemma ResNet_224:
  assumes "v \<in> {18, 34, 50, 101, 152}"
  shows "ResNet v (3, 224, 224) includeTop preTrained 1000 =
    Inr \<lparr>resNet =
      [Convolution 3 64 7 7 2 2 3 3 224 224, BatchNorm 64, ReLULayer, Padding 1 1 1 1,
       MaxPooling 3 3 2 2,
       Sequential [Convolution 64 64 3 3 1 1 1 1 56 56, Convolution 64 64 3 3 1 1 1 1 56 56],
       IdentityLayer],
      inputChannel = 3, inputWidth = 56, inputHeight = 56, numClasses = 1000\<rparr>"
proof -
  obtain numBlockArray builderBlock where cfg: "ResNet_config v = Inr (numBlockArray, builderBlock)"
    using ResNet_config_supported [OF assms] by blast
  show ?thesis
    by (simp add: ResNet_def cfg ResNet_stem_def ResNet_rest_def state_defs
        ConvOutSize_224 ConvOutSize_114)
qed

subsection \<open>What \<^verbatim>\<open>MakeLayer\<close> decides\<close>

text \<open>
  For the basic block the flag passed to the first block is the test on the stride alone,
  whatever \<open>outSize\<close> is: \<open>inSize\<close> is compared with itself times 1. For the
  bottleneck block nothing is built, since \<^verbatim>\<open>BottleNeck\<close> is empty.
\<close>

lemma for_blocks_no_effect:
  "for_blocks i numBlocks (\<lambda>this. Inr this) this = Inr this"
proof (induction i numBlocks
    "\<lambda>this :: resnet_state. (Inr this :: failure \<times> resnet_state + resnet_state)" this
    rule: for_blocks.induct)
  case (1 i numBlocks this)
  then show ?case by (subst for_blocks.simps) simp
qed

lemma MakeLayer_basicblock:
  "MakeLayer ''basicblock'' outSize numBlocks stride this =
     and_then (BasicBlock 64 outSize (stride \<noteq> 1) 1 1 this)
       (for_blocks 1 numBlocks (BasicBlock 64 outSize False 1 1))"
  by (simp add: MakeLayer_def basicBlockExpansion_def Let_def)

lemma MakeLayer_bottleneck:
  "MakeLayer ''bottleneck'' outSize numBlocks stride this = Inr this"
proof -
  have "BottleNeck a b c = (\<lambda>this. Inr this)" for a b c
    by (rule ext) (simp add: BottleNeck_def)
  then show ?thesis
    by (simp add: MakeLayer_def Let_def and_then_def for_blocks_no_effect)
qed

subsection \<open>The graph on the free store\<close>

text \<open>
  For every injective supply of addresses the tree read from the store is the list of
  layers that \<open>ResNet\<close> builds. Without injectivity it need not be: if \<^verbatim>\<open>new\<close> returned
  the same address every time, all seven pointers of the network would lead to the layer
  created last.
\<close>

lemmas new_defs = operator_new_def network_Add_def container_Add_def assign_inputWidth'_def
  assign_inputHeight'_def and_then_def Let_def

lemma ResNet_new_graph:
  assumes "inj supply" and "2 \<le> depth"
  shows "graph_of_run depth (ResNet_new supply v inputShape includeTop preTrained n) =
    layers_of_run (ResNet v inputShape includeTop preTrained n)"
proof -
  obtain d where d: "depth = Suc (Suc d)"
    using assms(2) by (metis Suc_le_D numeral_2_eq_2 Suc_le_mono)
  note eq = inj_eq [OF assms(1)]
  show ?thesis
  proof (cases "ResNet_config v")
    case (Inl f)
    then show ?thesis
      by (simp add: ResNet_new_def ResNet_def graph_of_run_def layers_of_run_def graph_def)
  next
    case (Inr cfg)
    obtain numBlockArray builderBlock where cfg: "cfg = (numBlockArray, builderBlock)"
      by (cases cfg)
    obtain c w h where shape: "inputShape = (c, w, h)" by (cases inputShape) auto
    have two: "2 \<le> unat (2 :: size_t)" by simp
    obtain w1 where w1: "ConvOutSize w 7 2 3 = Inr w1"
      using ConvOutSize_defined [OF two] by blast
    obtain h1 where h1: "ConvOutSize h 7 2 3 = Inr h1"
      using ConvOutSize_defined [OF two] by blast
    obtain w2 where w2: "ConvOutSize (w1 + 2) 3 2 0 = Inr w2"
      using ConvOutSize_defined [OF two] by blast
    obtain h2 where h2: "ConvOutSize (h1 + 2) 3 2 0 = Inr h2"
      using ConvOutSize_defined [OF two] by blast
    have pure: "layers_of_run (ResNet v inputShape includeTop preTrained n) =
      Inr (Some [Convolution 3 64 7 7 2 2 3 3 w h, BatchNorm 64, ReLULayer, Padding 1 1 1 1,
        MaxPooling 3 3 2 2,
        Sequential [Convolution 64 64 3 3 1 1 1 1 w2 h2, Convolution 64 64 3 3 1 1 1 1 w2 h2],
        IdentityLayer])"
      by (simp add: layers_of_run_def ResNet_def Inr cfg shape ResNet_stem_def ResNet_rest_def
          state_defs w1 h1 w2 h2)
    have "graph_of_run depth (ResNet_new supply v inputShape includeTop preTrained n) =
      Inr (Some [Convolution 3 64 7 7 2 2 3 3 w h, BatchNorm 64, ReLULayer, Padding 1 1 1 1,
        MaxPooling 3 3 2 2,
        Sequential [Convolution 64 64 3 3 1 1 1 1 w2 h2, Convolution 64 64 3 3 1 1 1 1 w2 h2],
        IdentityLayer])"
      by (simp add: graph_of_run_def graph_def ResNet_new_def Inr cfg shape ResNet_stem_new_def
          ResNet_rest_new_def new_defs w1 h1 w2 h2 d eq)
    with pure show ?thesis by simp
  qed
qed

lemma ResNet_new_reused_address:
  "graph_of_run 2 (ResNet_new (\<lambda>i. 0) 18 (3, 224, 224) True False 1000) =
     Inr (Some (replicate 7 IdentityLayer))"
  by (simp add: graph_of_run_def graph_def ResNet_new_def ResNet_config_def ResNet_stem_new_def
      ResNet_rest_new_def new_defs ConvOutSize_224 ConvOutSize_114 numeral_2_eq_2
      numeral_eq_Suc)

section \<open>Claims\<close>

subsection \<open>Configuration\<close>

text \<open>
  C1. For each supported depth the constructor sets the block counts and the builder of
  the table: 18 gives (2, 2, 2, 2) and the basic block, 34 gives (3, 4, 6, 3) and the basic
  block, 50 gives (3, 4, 6, 3) and the bottleneck block, 101 gives (3, 4, 23, 3) and the
  bottleneck block, 152 gives (3, 8, 36, 3) and the bottleneck block; the expansion factor
  of the basic block is 1 and that of the bottleneck block is 4.
\<close>

theorem ResNet_config_table:
  "ResNet_config 18 = Inr ([2, 2, 2, 2], ''basicblock'') \<and>
   ResNet_config 34 = Inr ([3, 4, 6, 3], ''basicblock'') \<and>
   ResNet_config 50 = Inr ([3, 4, 6, 3], ''bottleneck'') \<and>
   ResNet_config 101 = Inr ([3, 4, 23, 3], ''bottleneck'') \<and>
   ResNet_config 152 = Inr ([3, 8, 36, 3], ''bottleneck'') \<and>
   basicBlockExpansion = 1 \<and> bottleNeckExpansion = 4"
  by (simp add: ResNet_config_def basicBlockExpansion_def bottleNeckExpansion_def)

subsection \<open>The shortcut of a block\<close>

text \<open>
  C2. The claim asks for a projection shortcut exactly when the stride is not 1 or the
  incoming channel count differs from \<open>outSize\<close> times the expansion factor.
  \<^verbatim>\<open>MakeLayer\<close> compares \<open>inSize\<close> with \<open>inSize * basicBlockExpansion\<close>, which are
  equal, so for the basic block the decision is the stride alone. A stage of two basic
  blocks with 128 output channels and stride 1, entered with 64 channels at 56 by 56,
  gets identity shortcuts in both blocks, although the first block maps 64 channels to
  128.
\<close>

theorem MakeLayer_basic_128_stride_1:
  "MakeLayer ''basicblock'' 128 2 1
     \<lparr>resNet = [], inputChannel = 3, inputWidth = 56, inputHeight = 56, numClasses = 1000\<rparr> =
   Inr \<lparr>resNet =
     [Sequential [AddMerge True True
        [Sequential [Convolution 64 128 1 1 1 1 1 1 56 56, BatchNorm 128, ReLULayer,
           Convolution 128 128 3 3 1 1 1 1 58 58, BatchNorm 128],
         IdentityLayer], ReLULayer],
      Sequential [AddMerge True True
        [Sequential [Convolution 64 128 1 1 1 1 1 1 58 58, BatchNorm 128, ReLULayer,
           Convolution 128 128 3 3 1 1 1 1 60 60, BatchNorm 128],
         IdentityLayer], ReLULayer]],
     inputChannel = 3, inputWidth = 60, inputHeight = 60, numClasses = 1000\<rparr>"
  by (simp add: MakeLayer_def basicBlockExpansion_def block_defs state_defs for_blocks.simps
      ConvOutSize_56_1 ConvOutSize_58_3 ConvOutSize_58_1 ConvOutSize_60_3)

theorem MakeLayer_basic_128_stride_1_witness:
  "\<exists>this. MakeLayer ''basicblock'' 128 2 1
       \<lparr>resNet = [], inputChannel = 3, inputWidth = 56, inputHeight = 56,
         numClasses = 1000\<rparr> = Inr this \<and>
     length (resNet this) = 2 \<and> inputWidth this = 60"
  using MakeLayer_basic_128_stride_1 by simp

subsection \<open>The output size of a convolution\<close>

text \<open>
  C3, as amended. When the kernel is at most the padded size and the difference
  \<open>size + 2 * padding - k\<close> is below \<open>2 ^ 52\<close>, then for every stride other than 0
  \<^verbatim>\<open>ConvOutSize\<close> returns the floor of the difference divided by the stride, plus 1; for
  stride 1 that is the difference plus 1; and \<^verbatim>\<open>ConvOutSize(224, 7, 2, 3)\<close> is 112.
\<close>

theorem ConvOutSize_floor_formula:
  assumes "unat k \<le> unat sz + 2 * unat p"
    and "unat sz + 2 * unat p - unat k < 2 ^ 52"
  shows "(0 < unat s \<longrightarrow>
      (\<exists>w. ConvOutSize sz k s p = Inr w \<and>
           uint w = ConvOutSize_spec (uint sz) (uint k) (uint s) (uint p))) \<and>
    (\<exists>w. ConvOutSize sz k 1 p = Inr w \<and> uint w = uint sz + 2 * uint p - uint k + 1) \<and>
    ConvOutSize 224 7 2 3 = Inr 112"
proof -
  define x where "x = unat sz + 2 * unat p - unat k"
  have x: "x < 2 ^ 52" using assms(2) by (simp add: x_def)
  have general: "\<exists>w. ConvOutSize sz k t p = Inr w \<and>
      uint w = ConvOutSize_spec (uint sz) (uint k) (uint t) (uint p)" if t: "0 < unat t" for t
  proof -
    have "x div unat t + 1 \<le> x + 1" by (simp add: div_le_dividend)
    also have "\<dots> < 2 ^ 64" using x by simp
    finally have "x div unat t + 1 < 2 ^ 64" .
    then have "uint (word_of_nat (x div unat t + 1) :: size_t) = int (x div unat t + 1)"
      by (rule uint_small_of_nat)
    then show ?thesis
      using ConvOutSize_exact [OF t assms] ConvOutSize_spec_unat [OF assms(1), of t]
      by (simp add: x_def)
  qed
  have one: "\<exists>w. ConvOutSize sz k 1 p = Inr w \<and> uint w = uint sz + 2 * uint p - uint k + 1"
    using general [of 1] by (simp add: ConvOutSize_spec_def)
  from general one ConvOutSize_224 show ?thesis by blast
qed

theorem ConvOutSize_floor_formula_witness:
  "\<exists>w. ConvOutSize 100 3 4 1 = Inr w \<and> uint w = 25"
proof -
  have a: "unat (3 :: size_t) \<le> unat (100 :: size_t) + 2 * unat (1 :: size_t)" by simp
  have b: "unat (100 :: size_t) + 2 * unat (1 :: size_t) - unat (3 :: size_t) < 2 ^ 52" by simp
  have c: "0 < unat (4 :: size_t)" by simp
  from ConvOutSize_floor_formula [OF a b, of 4] c
  have "\<exists>w. ConvOutSize 100 3 4 1 = Inr w \<and>
      uint w = ConvOutSize_spec (uint (100 :: size_t)) (uint (3 :: size_t))
        (uint (4 :: size_t)) (uint (1 :: size_t))"
    by blast
  then show ?thesis by (simp add: ConvOutSize_spec_def)
qed

text \<open>
  C3 as stated, for all arguments, fails. With size 1, kernel 3, stride 2 and no padding
  the subtraction wraps and the function returns \<open>2 ^ 63\<close>, where the formula gives 0.
  With size 6004799503160661, kernel 0, stride 3002399751580331 and no padding nothing
  wraps, and the function returns 3 where the formula gives 2. With stride 0 the function
  divides by zero and has no value.
\<close>

theorem ConvOutSize_floor_formula_counterexample:
  "ConvOutSize 1 3 2 0 = Inr 9223372036854775808 \<and> ConvOutSize_spec 1 3 2 0 = 0 \<and>
   ConvOutSize 6004799503160661 0 3002399751580331 0 = Inr 3 \<and>
   ConvOutSize_spec 6004799503160661 0 3002399751580331 0 = 2 \<and>
   ConvOutSize 224 7 0 3 = Inl DivisionByZero"
proof -
  have "ConvOutSize_spec 1 3 2 0 = 0"
    and "ConvOutSize_spec 6004799503160661 0 3002399751580331 0 = 2"
    by (simp_all add: ConvOutSize_spec_def)
  with ConvOutSize_1_3_2_0 ConvOutSize_rounds_up ConvOutSize_zero_stride [of 224 7 3]
  show ?thesis by (intro conjI)
qed

subsection \<open>The graph the constructor builds\<close>

text \<open>
  C4. The claim asks for four residual stages after the stem. The constructor adds a
  sequential container of two 3 by 3 convolutions from 64 to 64 channels and an identity
  layer instead; the four calls of \<^verbatim>\<open>MakeLayer\<close> are commented out. For depth 18 and
  a 3 by 224 by 224 input the whole graph is the stem and these two layers.
\<close>

theorem ResNet_18_graph:
  "ResNet 18 (3, 224, 224) True False 1000 =
    Inr \<lparr>resNet =
      [Convolution 3 64 7 7 2 2 3 3 224 224, BatchNorm 64, ReLULayer, Padding 1 1 1 1,
       MaxPooling 3 3 2 2,
       Sequential [Convolution 64 64 3 3 1 1 1 1 56 56, Convolution 64 64 3 3 1 1 1 1 56 56],
       IdentityLayer],
      inputChannel = 3, inputWidth = 56, inputHeight = 56, numClasses = 1000\<rparr>"
  by (rule ResNet_224) simp

text \<open>
  C5. For every supported depth, every input shape and every value of the other
  arguments the constructor returns, and the first five layers of its graph are the
  7 by 7 convolution from 3 to 64 channels with stride 2 and padding 3, recorded with the
  input width and height, a batch normalisation of 64 channels, a ReLU, a padding of 1 on
  each side and a 3 by 3 max pooling with stride 2. The tracked width is
  \<^verbatim>\<open>ConvOutSize\<close> of the input width for the convolution, plus 2 for the padding, and
  \<^verbatim>\<open>ConvOutSize\<close> of that for the pooling; likewise the height. For an input of 224 the
  result is 56.
\<close>

theorem ResNet_stem_layers:
  assumes "v \<in> {18, 34, 50, 101, 152}"
  shows "\<exists>this w1 h1 w2 h2.
     ResNet v (c, w, h) includeTop preTrained n = Inr this \<and>
     take 5 (resNet this) =
       [Convolution 3 64 7 7 2 2 3 3 w h, BatchNorm 64, ReLULayer, Padding 1 1 1 1,
        MaxPooling 3 3 2 2] \<and>
     ConvOutSize w 7 2 3 = Inr w1 \<and> ConvOutSize h 7 2 3 = Inr h1 \<and>
     ConvOutSize (w1 + 2) 3 2 0 = Inr w2 \<and> ConvOutSize (h1 + 2) 3 2 0 = Inr h2 \<and>
     inputWidth this = w2 \<and> inputHeight this = h2 \<and>
     (w = 224 \<longrightarrow> w2 = 56) \<and> (h = 224 \<longrightarrow> h2 = 56)"
proof -
  define this0 where "this0 = \<lparr>resNet = [], inputChannel = c, inputWidth = w, inputHeight = h,
    numClasses = n\<rparr>"
  obtain numBlockArray builderBlock where cfg: "ResNet_config v = Inr (numBlockArray, builderBlock)"
    using ResNet_config_supported [OF assms] by blast
  obtain w1 h1 w2 h2 where
    c: "ConvOutSize w 7 2 3 = Inr w1" "ConvOutSize h 7 2 3 = Inr h1"
      "ConvOutSize (w1 + 2) 3 2 0 = Inr w2" "ConvOutSize (h1 + 2) 3 2 0 = Inr h2"
    and stem: "ResNet_stem this0 = Inr (this0\<lparr>resNet := resNet this0 @
       [Convolution 3 64 7 7 2 2 3 3 (inputWidth this0) (inputHeight this0), BatchNorm 64,
        ReLULayer, Padding 1 1 1 1, MaxPooling 3 3 2 2],
       inputWidth := w2, inputHeight := h2\<rparr>)"
    using ResNet_stem_Inr [of this0] by (auto simp: this0_def)
  define this1 where "this1 = ResNet_rest (this0\<lparr>resNet := resNet this0 @
       [Convolution 3 64 7 7 2 2 3 3 (inputWidth this0) (inputHeight this0), BatchNorm 64,
        ReLULayer, Padding 1 1 1 1, MaxPooling 3 3 2 2],
       inputWidth := w2, inputHeight := h2\<rparr>)"
  have r: "ResNet v (c, w, h) includeTop preTrained n = Inr this1"
    using stem by (simp add: ResNet_def cfg and_then_def this0_def this1_def)
  have l: "take 5 (resNet this1) =
       [Convolution 3 64 7 7 2 2 3 3 w h, BatchNorm 64, ReLULayer, Padding 1 1 1 1,
        MaxPooling 3 3 2 2]"
    and d: "inputWidth this1 = w2" "inputHeight this1 = h2"
    by (simp_all add: this1_def this0_def ResNet_rest_def add_layer_def Let_def)
  have a: "w = 224 \<longrightarrow> w2 = 56" using c(1,3) by (auto simp: ConvOutSize_224 ConvOutSize_114)
  have b: "h = 224 \<longrightarrow> h2 = 56" using c(2,4) by (auto simp: ConvOutSize_224 ConvOutSize_114)
  from r l c d a b show ?thesis by blast
qed

theorem ResNet_stem_layers_witness:
  "\<exists>this. ResNet 18 (3, 224, 224) True False 1000 = Inr this \<and>
     take 5 (resNet this) =
       [Convolution 3 64 7 7 2 2 3 3 224 224, BatchNorm 64, ReLULayer, Padding 1 1 1 1,
        MaxPooling 3 3 2 2] \<and>
     inputWidth this = 56 \<and> inputHeight this = 56"
proof -
  have "(18 :: size_t) \<in> {18, 34, 50, 101, 152}" by simp
  from ResNet_stem_layers [OF this, of 3 224 224 True False 1000] show ?thesis by auto
qed

text \<open>
  C6. The claim asks for an adaptive pooling to 1 by 1 and a linear layer from 2048
  channels to the classes at the end of the graph of a depth 50 network built with
  \<^verbatim>\<open>includeTop\<close> true. The lines that add them are commented out: the graph has seven
  layers, ends with the identity layer and holds neither of the two.
\<close>

theorem ResNet_50_graph:
  "\<exists>this. ResNet 50 (3, 224, 224) True False 1000 = Inr this \<and>
     length (resNet this) = 7 \<and> last (resNet this) = IdentityLayer \<and>
     AdaptiveMeanPooling 1 1 \<notin> set (resNet this) \<and>
     Linear 2048 1000 \<notin> set (resNet this)"
proof -
  have "(50 :: size_t) \<in> {18, 34, 50, 101, 152}" by simp
  from ResNet_224 [OF this, of True False] show ?thesis by simp
qed

subsection \<open>Failure, determinism, the two flags\<close>

text \<open>
  C7. For every \<^verbatim>\<open>ResNetVersion\<close> other than 18, 34, 50, 101 and 152 the constructor fails
  with the fatal error, and at the point of failure no layer has been added to the
  network.
\<close>

theorem ResNet_unsupported_version:
  assumes "v \<notin> {18, 34, 50, 101, 152}"
  shows "\<exists>this. ResNet v inputShape includeTop preTrained n = Inl (Fatal, this) \<and>
    resNet this = []"
  using assms by (simp add: ResNet_def ResNet_config_def)

theorem ResNet_unsupported_version_witness:
  "\<exists>this. ResNet 200 (3, 224, 224) True False 1000 = Inl (Fatal, this) \<and> resNet this = []"
proof -
  have "(200 :: size_t) \<notin> {18, 34, 50, 101, 152}" by simp
  from ResNet_unsupported_version [OF this] show ?thesis .
qed

text \<open>
  C8. Two runs of the constructor on the same arguments build structurally identical
  graphs, whatever addresses \<^verbatim>\<open>new\<close> returns in each of them: read from the store
  through the pointers, the two runs give the same layers with the same parameters, in
  the same order and nesting, or the same failure; and this graph is the list of layers
  of \<open>ResNet\<close>, on which the other claims are stated.
\<close>

theorem ResNet_deterministic:
  assumes "inj supply" and "inj supply'" and "2 \<le> depth"
  shows "graph_of_run depth (ResNet_new supply v inputShape includeTop preTrained n) =
      graph_of_run depth (ResNet_new supply' v inputShape includeTop preTrained n) \<and>
    graph_of_run depth (ResNet_new supply v inputShape includeTop preTrained n) =
      layers_of_run (ResNet v inputShape includeTop preTrained n)"
  using ResNet_new_graph [OF assms(1,3)] ResNet_new_graph [OF assms(2,3)] by simp

theorem ResNet_deterministic_witness:
  "graph_of_run 2 (ResNet_new (\<lambda>i. i) 18 (3, 224, 224) True False 1000) =
     graph_of_run 2 (ResNet_new (\<lambda>i. 2 * i + 7) 18 (3, 224, 224) True False 1000) \<and>
   graph_of_run 2 (ResNet_new (\<lambda>i. i) 18 (3, 224, 224) True False 1000) =
     Inr (Some [Convolution 3 64 7 7 2 2 3 3 224 224, BatchNorm 64, ReLULayer, Padding 1 1 1 1,
       MaxPooling 3 3 2 2,
       Sequential [Convolution 64 64 3 3 1 1 1 1 56 56, Convolution 64 64 3 3 1 1 1 1 56 56],
       IdentityLayer])"
proof -
  have a: "inj (\<lambda>i :: nat. i)" and b: "inj (\<lambda>i :: nat. 2 * i + 7)"
    by (simp_all add: inj_on_def)
  have v: "(18 :: size_t) \<in> {18, 34, 50, 101, 152}" by simp
  note t = ResNet_deterministic [OF a b order_refl, of 18 "(3, 224, 224)" True False 1000]
  have p: "layers_of_run (ResNet 18 (3, 224, 224) True False 1000) =
     Inr (Some [Convolution 3 64 7 7 2 2 3 3 224 224, BatchNorm 64, ReLULayer, Padding 1 1 1 1,
       MaxPooling 3 3 2 2,
       Sequential [Convolution 64 64 3 3 1 1 1 1 56 56, Convolution 64 64 3 3 1 1 1 1 56 56],
       IdentityLayer])"
    by (simp add: layers_of_run_def ResNet_224 [OF v])
  note e1 = t [THEN conjunct1] and e2 = t [THEN conjunct2]
  from e1 e2 [unfolded p] show ?thesis by (intro conjI)
qed

text \<open>
  C9. The result of the constructor does not depend on \<^verbatim>\<open>includeTop\<close> and
  \<^verbatim>\<open>preTrained\<close>: runs that agree on the version, the input shape and the number of
  classes give the same graph whatever the two flags are.
\<close>

theorem ResNet_flags_unused:
  "ResNet v inputShape includeTop preTrained n = ResNet v inputShape includeTop' preTrained' n"
  by (simp add: ResNet_def)

subsection \<open>Unguarded arithmetic\<close>

text \<open>
  C10, as amended. When \<open>size + 2 * padding\<close> is less than the kernel, the subtraction
  in \<^verbatim>\<open>size_t\<close> wraps to \<open>2 ^ 64\<close> minus the deficit, and nothing rejects the
  arguments. For every stride of at least 2, and for stride 1 when the deficit is more
  than 1024, the function returns a value; the value is at least \<open>2 ^ (a - c)\<close>
  whenever \<open>2 ^ a\<close> is at most the wrapped difference and the stride is at most
  \<open>2 ^ c\<close>, so it is huge whenever the wrapped difference is huge compared with the
  stride. For stride 1 and a deficit of at most 1024 the result in \<^verbatim>\<open>double\<close> is
  \<open>2 ^ 64\<close>, which \<^verbatim>\<open>size_t\<close> cannot hold, so the conversion in the \<^verbatim>\<open>return\<close> is
  undefined. A stride of 0 divides by zero.
\<close>

theorem ConvOutSize_unguarded:
  assumes "unat sz + 2 * unat p < unat k"
  shows "unat (sz + 2 * p - k) = 2 ^ 64 - (unat k - (unat sz + 2 * unat p)) \<and>
    (2 \<le> unat s \<or> unat s = 1 \<and> 1024 < unat k - (unat sz + 2 * unat p) \<longrightarrow>
      (\<exists>w. ConvOutSize sz k s p = Inr w \<and>
        (\<forall>a c. c \<le> a \<and> 2 ^ a \<le> unat (sz + 2 * p - k) \<and> unat s \<le> 2 ^ c \<longrightarrow>
           2 ^ (a - c) \<le> unat w))) \<and>
    (unat k - (unat sz + 2 * unat p) \<le> 1024 \<longrightarrow>
      ConvOutSize sz k 1 p = Inl ConversionOutOfRange) \<and>
    ConvOutSize sz k 0 p = Inl DivisionByZero"
proof -
  have wrap: "unat (sz + 2 * p - k) = 2 ^ 64 - (unat k - (unat sz + 2 * unat p))"
    using assms by (rule word_diff_wrap)
  have returns: "\<exists>w. ConvOutSize sz k s p = Inr w \<and>
      (\<forall>a c. c \<le> a \<and> 2 ^ a \<le> unat (sz + 2 * p - k) \<and> unat s \<le> 2 ^ c \<longrightarrow>
         2 ^ (a - c) \<le> unat w)"
    if s: "2 \<le> unat s \<or> unat s = 1 \<and> 1024 < unat k - (unat sz + 2 * unat p)"
  proof -
    have s0: "s \<noteq> 0" using s by auto
    have "\<exists>w. ConvOutSize sz k s p = Inr w"
    proof (cases "2 \<le> unat s")
      case True
      then show ?thesis by (rule ConvOutSize_defined)
    next
      case False
      with s have one: "unat s = 1" and d: "1024 < unat k - (unat sz + 2 * unat p)" by simp_all
      from one have "unat s = unat (1 :: size_t)" by simp
      then have "s = 1" by (simp only: word_unat_eq_iff)
      moreover have "unat (sz + 2 * p - k) \<le> 2 ^ 64 - 1025" using d by (simp add: wrap)
      ultimately show ?thesis using ConvOutSize_stride1_defined by simp
    qed
    then obtain w where w: "ConvOutSize sz k s p = Inr w" by blast
    have "2 ^ (a - c) \<le> unat w"
      if "c \<le> a" "2 ^ a \<le> unat (sz + 2 * p - k)" "unat s \<le> 2 ^ c" for a c
      using w that(2) s0 that(3) that(1) by (rule ConvOutSize_at_least)
    with w show ?thesis by blast
  qed
  have undefined: "ConvOutSize sz k 1 p = Inl ConversionOutOfRange"
    if d: "unat k - (unat sz + 2 * unat p) \<le> 1024"
  proof (rule ConvOutSize_stride1_wrap)
    show "2 ^ 64 - 1024 \<le> unat (sz + 2 * p - k)" using d by (simp add: wrap)
  qed
  from wrap returns undefined ConvOutSize_zero_stride [of sz k p] show ?thesis by blast
qed

theorem ConvOutSize_unguarded_witness:
  "unat (0 + 2 * 0 - 1025 :: size_t) = 2 ^ 64 - 1025 \<and>
   (\<exists>w. ConvOutSize 0 1025 1 0 = Inr w \<and> 2 ^ 63 \<le> unat w) \<and>
   (\<exists>w. ConvOutSize 0 3 2 0 = Inr w \<and> 2 ^ 62 \<le> unat w) \<and>
   ConvOutSize 0 3 1 0 = Inl ConversionOutOfRange \<and>
   ConvOutSize 0 3 0 0 = Inl DivisionByZero"
proof -
  have h1: "unat (0 :: size_t) + 2 * unat (0 :: size_t) < unat (1025 :: size_t)" by simp
  have h2: "unat (0 :: size_t) + 2 * unat (0 :: size_t) < unat (3 :: size_t)" by simp
  note t1 = ConvOutSize_unguarded [OF h1, of 1]
  note t2 = ConvOutSize_unguarded [OF h2, of 2]
  have wrap: "unat (0 + 2 * 0 - 1025 :: size_t) = 2 ^ 64 - 1025" using t1 by simp
  obtain w1 where w1: "ConvOutSize 0 1025 1 0 = Inr w1"
    and b1: "\<And>a c. c \<le> a \<Longrightarrow> 2 ^ a \<le> unat (0 + 2 * 0 - 1025 :: size_t) \<Longrightarrow>
      unat (1 :: size_t) \<le> 2 ^ c \<Longrightarrow> 2 ^ (a - c) \<le> unat w1"
    using t1 by auto
  have "2 ^ (63 - 0) \<le> unat w1" by (rule b1) simp_all
  then have a: "\<exists>w. ConvOutSize 0 1025 1 0 = Inr w \<and> 2 ^ 63 \<le> unat w" using w1 by simp
  obtain w2 where w2: "ConvOutSize 0 3 2 0 = Inr w2"
    and b2: "\<And>a c. c \<le> a \<Longrightarrow> 2 ^ a \<le> unat (0 + 2 * 0 - 3 :: size_t) \<Longrightarrow>
      unat (2 :: size_t) \<le> 2 ^ c \<Longrightarrow> 2 ^ (a - c) \<le> unat w2"
    using t2 by auto
  have "2 ^ (63 - 1) \<le> unat w2" by (rule b2) simp_all
  then have b: "\<exists>w. ConvOutSize 0 3 2 0 = Inr w \<and> 2 ^ 62 \<le> unat w" using w2 by simp
  have c: "ConvOutSize 0 3 1 0 = Inl ConversionOutOfRange"
    and d: "ConvOutSize 0 3 0 0 = Inl DivisionByZero"
    using t2 by simp_all
  from wrap a b c d show ?thesis by (intro conjI)
qed

text \<open>
  C10 as stated fails. With size 0, kernel 3, stride 1 and no padding the function does
  not return a huge value: its result is undefined. With a stride of \<open>2 ^ 64 - 1\<close>, or
  with a kernel of \<open>2 ^ 64 - 1\<close>, the subtraction wraps and the function returns 2.
\<close>

theorem ConvOutSize_unguarded_counterexample:
  "ConvOutSize 0 3 1 0 = Inl ConversionOutOfRange \<and>
   ConvOutSize 0 1 18446744073709551615 0 = Inr 2 \<and>
   ConvOutSize 0 18446744073709551615 1 0 = Inr 2"
proof -
  have "ConvOutSize 0 3 1 0 = Inl ConversionOutOfRange"
    by (rule ConvOutSize_stride1_wrap) simp
  with ConvOutSize_huge_stride ConvOutSize_huge_kernel show ?thesis by (intro conjI)
qed

end
